theory Spec2Isabelle
  imports Main "HOL-Library.Sublist" "HOL-Library.Char_ord" "HOL-Library.List_Lexorder"
    "HOL-Library.Multiset" "HOL-Library.AList"
begin

section \<open>Strings, paths and file-name patterns\<close>

text \<open>
  The scripts run on Python strings. They are modelled as \<^typ>\<open>string\<close>, and names are ASCII
  text, so that the regular-expression classes \<open>\d\<close> and \<open>\w\<close> are the ASCII digits and
  word characters and \<open>upper\<close> and \<open>lower\<close> act on the 26 letters. Paths are written with a
  forward slash, as \<open>os.path\<close> does on a POSIX system. \<open>os.path.join\<close> is only ever
  called with a relative second component.
\<close>

definition path_join :: "string \<Rightarrow> string \<Rightarrow> string" where
  "path_join a b =
     (if a = [] then b
      else if last a = CHR ''/'' then a @ b
      else a @ ''/'' @ b)"

fun basename :: "string \<Rightarrow> string" where
  "basename [] = []"
| "basename (c # cs) = (if CHR ''/'' \<in> set cs then basename cs
                         else if c = CHR ''/'' then cs else c # cs)"

definition is_digit :: "char \<Rightarrow> bool" where
  "is_digit c = (c \<in> set ''0123456789'')"

definition is_upper :: "char \<Rightarrow> bool" where
  "is_upper c = (c \<in> set ''ABCDEFGHIJKLMNOPQRSTUVWXYZ'')"

definition is_lower :: "char \<Rightarrow> bool" where
  "is_lower c = (c \<in> set ''abcdefghijklmnopqrstuvwxyz'')"

text \<open>The regular-expression class \<open>\w\<close> on ASCII text.\<close>

definition is_word :: "char \<Rightarrow> bool" where
  "is_word c = (is_digit c \<or> is_upper c \<or> is_lower c \<or> c = CHR ''_'')"

definition upper_char :: "char \<Rightarrow> char" where
  "upper_char c = (if is_lower c then char_of (of_char c - (32::nat)) else c)"

definition lower_char :: "char \<Rightarrow> char" where
  "lower_char c = (if is_upper c then char_of (of_char c + (32::nat)) else c)"

definition str_upper :: "string \<Rightarrow> string" where
  "str_upper s = map upper_char s"

definition str_lower :: "string \<Rightarrow> string" where
  "str_lower s = map lower_char s"

text \<open>Python's \<open>needle in haystack\<close> on strings.\<close>

fun str_contains :: "string \<Rightarrow> string \<Rightarrow> bool" where
  "str_contains needle [] = (needle = [])"
| "str_contains needle (c # cs) = (prefix needle (c # cs) \<or> str_contains needle cs)"

text \<open>Python's \<open>str(n)\<close> for the version counter, a non-negative integer.\<close>

definition digit_char :: "nat \<Rightarrow> char" where
  "digit_char d = char_of (48 + d)"

fun str_nat :: "nat \<Rightarrow> string" where
  "str_nat n = (if n < 10 then [digit_char n] else str_nat (n div 10) @ [digit_char (n mod 10)])"

declare str_nat.simps [simp del]

text \<open>
  \<open>os.path.split\<close>: the path is cut after its last slash, and the slashes that end the
  head are dropped unless the head consists of slashes only.
\<close>

definition path_split :: "string \<Rightarrow> string \<times> string" where
  "path_split p =
     (let tail = rev (takeWhile (\<lambda>c. c \<noteq> CHR ''/'') (rev p));
          head = take (length p - length tail) p
      in if head \<noteq> [] \<and> \<not> list_all (\<lambda>c. c = CHR ''/'') head
         then (rev (dropWhile (\<lambda>c. c = CHR ''/'') (rev head)), tail)
         else (head, tail))"

section \<open>What the scripts ask of the operating system and of the library\<close>

datatype py_error = NotADirectoryError | FileNotFoundError | FileExistsError | RuntimeError string

text \<open>
  An entry of a directory, for the functions that are given the content of a directory as a
  list: a regular file, or a folder with the names it holds.
\<close>

datatype dir_entry = File | Folder "string list"

text \<open>
  The outcome of \<open>re.match(pattern, name)\<close> followed by \<open>.group(1)\<close>, for a pattern that
  is not a constant of the scripts: compiling or \<open>group(1)\<close> raises, there is no match, or
  group 1 is returned.
\<close>

datatype re_outcome = ReRaises string | NoMatch | Group1 string

text \<open>
  The scanners read the file system through \<open>os.path.exists\<close>, \<open>os.path.isdir\<close>,
  \<open>os.listdir\<close> and \<open>glob.glob\<close>; \<open>glob\<close> itself reads it through \<open>os.path.lexists\<close>,
  \<open>os.path.isdir\<close> and \<open>os.scandir\<close>, which yields the names \<open>os.listdir\<close> returns, in
  the same order. These answers are given per path. Three more things depend on the
  platform or on the library and are given the same way: whether \<open>os.path.normcase\<close>
  lower-cases names (it does on Windows, where \<open>fnmatch\<close> therefore ignores case), what
  \<open>fnmatch\<close> answers for a pattern with a bracket (a character class), and what \<open>re.match\<close>
  answers for a pattern that is a path. Where the platform is Windows the separator is a
  backslash; the paths of the examples are written with a forward slash all the same.
\<close>

record python_env =
  os_exists :: "string \<Rightarrow> bool"
  os_lexists :: "string \<Rightarrow> bool"
  os_isdir :: "string \<Rightarrow> bool"
  os_listdir :: "string \<Rightarrow> py_error + string list"
  normcase_lowers :: bool
  fnmatch_bracket :: "string \<Rightarrow> string \<Rightarrow> bool"
  re_match_group1 :: "string \<Rightarrow> string \<Rightarrow> re_outcome"

subsection \<open>\<open>fnmatch\<close>\<close>

text \<open>
  \<open>fnmatch\<close> for a pattern of literal characters, \<open>*\<close> (any run of characters) and \<open>?\<close>
  (any one character); the whole name has to match.
\<close>

fun glob_match :: "string \<Rightarrow> string \<Rightarrow> bool" where
  "glob_match [] s = (s = [])"
| "glob_match (p # ps) [] = (p = CHR ''*'' \<and> glob_match ps [])"
| "glob_match (p # ps) (c # cs) =
     (if p = CHR ''*'' then glob_match ps (c # cs) \<or> glob_match (p # ps) cs
      else (p = CHR ''?'' \<or> p = c) \<and> glob_match ps cs)"

definition normcase :: "python_env \<Rightarrow> string \<Rightarrow> string" where
  "normcase env s = (if normcase_lowers env then str_lower s else s)"

text \<open>\<open>fnmatch.filter(names, pat)\<close>.\<close>

definition fnmatch_filter :: "python_env \<Rightarrow> string list \<Rightarrow> string \<Rightarrow> string list" where
  "fnmatch_filter env names pat =
     (let pat = normcase env pat
      in filter (\<lambda>name. if CHR ''['' \<in> set pat then fnmatch_bracket env pat (normcase env name)
                         else glob_match pat (normcase env name))
           names)"

subsection \<open>\<open>glob.glob\<close>\<close>

text \<open>
  \<open>glob.glob(pathname)\<close> with its defaults (not recursive, hidden names left out). The
  characters \<open>*\<close>, \<open>?\<close> and \<open>[\<close> are wildcards in every component of the path, also in the
  directory part: \<open>_iglob\<close> splits the path, expands a directory part that holds a wildcard
  by calling itself for directories only, and matches the last component in each directory
  found. A directory that cannot be read has no entries.
\<close>

definition has_magic :: "string \<Rightarrow> bool" where
  "has_magic s = list_ex (\<lambda>c. c = CHR ''*'' \<or> c = CHR ''?'' \<or> c = CHR ''['') s"

definition is_hidden :: "string \<Rightarrow> bool" where
  "is_hidden name = (case name of [] \<Rightarrow> False | c # _ \<Rightarrow> c = CHR ''.'')"

definition glob1 :: "python_env \<Rightarrow> string \<Rightarrow> string \<Rightarrow> bool \<Rightarrow> string list" where
  "glob1 env dirname pattern dironly =
     (let arg = (if dirname = [] then ''.'' else dirname);
          names = (case os_listdir env arg of
                     Inl e \<Rightarrow> []
                   | Inr entries \<Rightarrow>
                       if dironly then filter (\<lambda>name. os_isdir env (path_join arg name)) entries
                       else entries);
          names = (if \<not> is_hidden pattern then filter (\<lambda>x. \<not> is_hidden x) names else names)
      in fnmatch_filter env names pattern)"

definition glob0 :: "python_env \<Rightarrow> string \<Rightarrow> string \<Rightarrow> string list" where
  "glob0 env dirname base =
     (if base \<noteq> [] then (if os_lexists env (path_join dirname base) then [base] else [])
      else (if os_isdir env dirname then [base] else []))"

function iglob :: "python_env \<Rightarrow> bool \<Rightarrow> string \<Rightarrow> string list" where
  "iglob env dironly pathname =
     (if \<not> has_magic pathname then
        (if snd (path_split pathname) \<noteq> []
         then (if os_lexists env pathname then [pathname] else [])
         else (if os_isdir env (fst (path_split pathname)) then [pathname] else []))
      else if fst (path_split pathname) = []
        then glob1 env [] (snd (path_split pathname)) dironly
      else
        concat
          (map (\<lambda>dirname.
                  map (path_join dirname)
                    (if has_magic (snd (path_split pathname))
                     then glob1 env dirname (snd (path_split pathname)) dironly
                     else glob0 env dirname (snd (path_split pathname))))
             (if fst (path_split pathname) \<noteq> pathname \<and> has_magic (fst (path_split pathname))
              then iglob env True (fst (path_split pathname))
              else [fst (path_split pathname)])))"
  by pat_completeness auto

termination
proof -
  have shorter: "length (fst (path_split p)) < length p" if ne: "fst (path_split p) \<noteq> p" for p
  proof -
    define tail where "tail = rev (takeWhile (\<lambda>c. c \<noteq> CHR ''/'') (rev p))"
    define head where "head = take (length p - length tail) p"
    have split_eq: "fst (path_split p) =
        (if head \<noteq> [] \<and> \<not> list_all (\<lambda>c. c = CHR ''/'') head
         then rev (dropWhile (\<lambda>c. c = CHR ''/'') (rev head)) else head)"
      unfolding path_split_def Let_def tail_def head_def by auto
    have "prefix (rev (dropWhile (\<lambda>c. c = CHR ''/'') (rev head))) head"
      by (metis suffix_dropWhile suffix_to_prefix rev_rev_ident)
    moreover have "prefix head p"
      unfolding head_def by (rule take_is_prefix)
    ultimately have "prefix (fst (path_split p)) p"
      unfolding split_eq by (auto intro: prefix_order.order_trans)
    then obtain zs where zs: "p = fst (path_split p) @ zs"
      by (auto simp: prefix_def)
    with ne have "zs \<noteq> []"
      by auto
    with zs show ?thesis
      by (metis length_append length_greater_0_conv less_add_same_cancel1)
  qed
  show ?thesis
    by (relation "measure (\<lambda>(env, dironly, pathname). length pathname)") (auto simp: shorter)
qed

declare iglob.simps [simp del]

definition glob :: "python_env \<Rightarrow> string \<Rightarrow> string list" where
  "glob env pathname = iglob env False pathname"

section \<open>RGB image classification\<close>

text \<open>
  \<open>scan_dcim_folders\<close> of the single-route RGB script, \<open>scan_dcim_folders_combined\<close> of
  the multi-route RGB+MS script and \<open>find_rgb_files\<close> of the configuration tool share the
  same three assignments to \<open>rgb_files\<close>.
\<close>

definition find_rgb_files :: "python_env \<Rightarrow> string \<Rightarrow> string list" where
  "find_rgb_files env folder_path =
     (let rgb_files = glob env (path_join folder_path ''*_D.JPG'');
          rgb_files = (if rgb_files = [] then glob env (path_join folder_path ''*D.JPG'')
                       else rgb_files);
          rgb_files = (if rgb_files = []
                       then glob env (path_join folder_path ''*.JPG'') @
                            glob env (path_join folder_path ''*.jpg'')
                       else rgb_files)
      in rgb_files)"

text \<open>
  \<open>scan_dcim_folders\<close> of the multi-route RGB script looks for \<open>*.JPG\<close> and, only when
  that is empty, for \<open>*.jpg\<close>.
\<close>

definition find_jpg_files_rgb_combined :: "python_env \<Rightarrow> string \<Rightarrow> string list" where
  "find_jpg_files_rgb_combined env folder_path =
     (let jpg_files = glob env (path_join folder_path ''*.JPG'');
          jpg_files = (if jpg_files = [] then glob env (path_join folder_path ''*.jpg'')
                       else jpg_files)
      in jpg_files)"

text \<open>
  \<open>scan_dcim_folders_combined\<close> of the single-route RGB+MS script walks the tree and keeps,
  per directory, the files whose lower-cased name ends in \<open>.jpg\<close> and whose upper-cased
  name contains \<open>D\<close> or \<open>RGB\<close>. \<open>files\<close> is the list of file names \<open>os.walk\<close> gives for
  the directory \<open>root\<close>.
\<close>

definition rgb_images_rgb_ms_single :: "string \<Rightarrow> string list \<Rightarrow> string list" where
  "rgb_images_rgb_ms_single root files =
     map (path_join root)
       (filter (\<lambda>f. suffix ''.jpg'' (str_lower f) \<and>
                     (str_contains ''D'' (str_upper f) \<or> str_contains ''RGB'' (str_upper f)))
          files)"

text \<open>
  For stating what the tiers return: the names \<open>os.scandir\<close> yields for a folder that do
  not begin with a dot, and the test that a name ends in a literal, up to case where the
  platform ignores it.
\<close>

definition visible_entries :: "python_env \<Rightarrow> string \<Rightarrow> string list" where
  "visible_entries env folder_path =
     filter (\<lambda>n. \<not> is_hidden n)
       (case os_listdir env folder_path of Inl e \<Rightarrow> [] | Inr entries \<Rightarrow> entries)"

definition ends_in :: "python_env \<Rightarrow> string \<Rightarrow> string \<Rightarrow> bool" where
  "ends_in env lit name = suffix (normcase env lit) (normcase env name)"

text \<open>
  A folder path that \<open>glob\<close> reads as it stands: it holds no wildcard character and names a
  folder, that is, it is not empty and does not end in a slash.
\<close>

definition plain_folder_path :: "string \<Rightarrow> bool" where
  "plain_folder_path p = (\<not> has_magic p \<and> p \<noteq> [] \<and> last p \<noteq> CHR ''/'')"

text \<open>The letters of \<open>RGB\<close> in either case somewhere in a name, and a \<open>d\<close> in either case.\<close>

fun has_rgb :: "string \<Rightarrow> bool" where
  "has_rgb (a # b # c # cs) =
     ((a = CHR ''R'' \<or> a = CHR ''r'') \<and> (b = CHR ''G'' \<or> b = CHR ''g'') \<and>
      (c = CHR ''B'' \<or> c = CHR ''b'') \<or> has_rgb (b # c # cs))"
| "has_rgb _ = False"

definition has_d :: "string \<Rightarrow> bool" where
  "has_d f = (CHR ''D'' \<in> set f \<or> CHR ''d'' \<in> set f)"

definition ends_in_jpg :: "string \<Rightarrow> bool" where
  "ends_in_jpg f =
     (case rev f of
        e3 # e2 # e1 # dot # _ \<Rightarrow>
          dot = CHR ''.'' \<and> (e1 = CHR ''j'' \<or> e1 = CHR ''J'') \<and>
          (e2 = CHR ''p'' \<or> e2 = CHR ''P'') \<and> (e3 = CHR ''g'' \<or> e3 = CHR ''G'')
      | _ \<Rightarrow> False)"

text \<open>
  A file system for the examples: the directories listed in \<open>dirs\<close>, each with the names it
  holds in directory order; a name that is not itself listed as a directory is a regular
  file. Paths are the ones the scripts build, relative to the working directory. No
  pattern of the examples holds a bracket, and the library answers are fixed.
\<close>

definition example_env :: "bool \<Rightarrow> (string \<times> string list) list \<Rightarrow> python_env" where
  "example_env lowers dirs =
     \<lparr>os_exists = (\<lambda>p. p \<in> set (concat (map (\<lambda>(d, names). d # map (path_join d) names) dirs))),
      os_lexists = (\<lambda>p. p \<in> set (concat (map (\<lambda>(d, names). d # map (path_join d) names) dirs))),
      os_isdir = (\<lambda>p. map_of dirs p \<noteq> None),
      os_listdir = (\<lambda>p. case map_of dirs p of
                           Some names \<Rightarrow> Inr names
                         | None \<Rightarrow>
                             if p \<in> set (concat (map (\<lambda>(d, names). map (path_join d) names) dirs))
                             then Inl NotADirectoryError else Inl FileNotFoundError),
      normcase_lowers = lowers,
      fnmatch_bracket = (\<lambda>pat name. False),
      re_match_group1 = (\<lambda>pat name. NoMatch)\<rparr>"

section \<open>Route folders and the directory scan\<close>

text \<open>
  \<open>re.match(r'DJI_\d{12,14}_(\d{3})_.*', folder)\<close>, returning group 1. The match is
  anchored at the start only. The run of digits after \<open>DJI_\<close> has to be followed by an
  underscore, so it is the whole run, and its length has to be 12, 13 or 14.
\<close>

definition match_route :: "string \<Rightarrow> string option" where
  "match_route folder =
     (if prefix ''DJI_'' folder then
        (let rest = drop 4 folder;
             timestamp = takeWhile is_digit rest
         in if 12 \<le> length timestamp \<and> length timestamp \<le> 14 then
              (case dropWhile is_digit rest of
                 u1 # a # b # c # u2 # _ \<Rightarrow>
                   (if u1 = CHR ''_'' \<and> is_digit a \<and> is_digit b \<and> is_digit c \<and> u2 = CHR ''_''
                    then Some [a, b, c] else None)
               | _ \<Rightarrow> None)
            else None)
      else None)"

record route_folder =
  folder_name :: string
  folder_path :: string
  route_number :: string
  rgb_count :: nat
  image_files :: "string list"

text \<open>One turn of the loop over \<open>os.listdir(dcim_path)\<close> in \<open>scan_dcim_folders\<close>.\<close>

definition scan_folder :: "python_env \<Rightarrow> string \<Rightarrow> route_folder list \<Rightarrow> string \<Rightarrow> route_folder list" where
  "scan_folder env dcim_path route_folders folder =
     (let folder_path = path_join dcim_path folder
      in if os_isdir env folder_path then
           (case match_route folder of
              None \<Rightarrow> route_folders
            | Some route_no \<Rightarrow>
                (let rgb_files = find_rgb_files env folder_path
                 in if rgb_files \<noteq> []
                    then route_folders @
                         [\<lparr>folder_name = folder, folder_path = folder_path,
                           route_number = route_no, rgb_count = length rgb_files,
                           image_files = rgb_files\<rparr>]
                    else route_folders))
         else route_folders)"

text \<open>
  \<open>scan_dcim_folders\<close> of the single-route RGB script. An exception of \<open>os.listdir\<close> is not
  caught. \<open>sorted(..., key=...)\<close> is a stable sort on the route number, compared as a
  string.
\<close>

definition scan_dcim_folders :: "python_env \<Rightarrow> string \<Rightarrow> py_error + route_folder list" where
  "scan_dcim_folders env dcim_path =
     (if \<not> os_exists env dcim_path then Inr []
      else
        (case os_listdir env dcim_path of
           Inl e \<Rightarrow> Inl e
         | Inr entries \<Rightarrow>
             Inr (sort_key route_number (foldl (scan_folder env dcim_path) [] entries))))"

text \<open>The decimal value of a route number, for comparing the two orders.\<close>

definition digit_value :: "char \<Rightarrow> nat" where
  "digit_value c = of_char c - 48"

definition route_value :: "string \<Rightarrow> nat" where
  "route_value s = foldl (\<lambda>n c. 10 * n + digit_value c) 0 s"

text \<open>The route grammar in words: \<open>DJI_\<close>, 12 to 14 digits, \<open>_\<close>, three digits, \<open>_\<close>, anything.\<close>

definition route_grammar :: "string \<Rightarrow> string \<Rightarrow> bool" where
  "route_grammar folder route_no =
     (\<exists>timestamp rest.
        folder = ''DJI_'' @ timestamp @ ''_'' @ route_no @ ''_'' @ rest \<and>
        12 \<le> length timestamp \<and> length timestamp \<le> 14 \<and> list_all is_digit timestamp \<and>
        length route_no = 3 \<and> list_all is_digit route_no)"

text \<open>The folders of a listing that the scan keeps, in directory order.\<close>

definition kept_folders :: "python_env \<Rightarrow> string \<Rightarrow> string list \<Rightarrow> route_folder list" where
  "kept_folders env dcim_path entries = foldl (scan_folder env dcim_path) [] entries"

text \<open>
  The folders of a listing for which the scan appends a record: directories whose name
  matches the grammar and for which the three tiers return a file.
\<close>

definition catalogued :: "python_env \<Rightarrow> string \<Rightarrow> string \<Rightarrow> bool" where
  "catalogued env dcim_path folder =
     (os_isdir env (path_join dcim_path folder) \<and> match_route folder \<noteq> None \<and>
      find_rgb_files env (path_join dcim_path folder) \<noteq> [])"

text \<open>The record the scan appends for such a folder.\<close>

definition folder_entry :: "python_env \<Rightarrow> string \<Rightarrow> string \<Rightarrow> route_folder list" where
  "folder_entry env dcim_path folder =
     (case match_route folder of
        None \<Rightarrow> []
      | Some route_no \<Rightarrow>
          [\<lparr>folder_name = folder, folder_path = path_join dcim_path folder,
            route_number = route_no,
            rgb_count = length (find_rgb_files env (path_join dcim_path folder)),
            image_files = find_rgb_files env (path_join dcim_path folder)\<rparr>])"

text \<open>
  The names under which a route folder holds an image, as the three tiers see them: the
  visible entries that end in \<open>.JPG\<close> or in \<open>.jpg\<close>.
\<close>

definition image_names :: "python_env \<Rightarrow> string \<Rightarrow> string list" where
  "image_names env fpath =
     filter (\<lambda>n. ends_in env ''.JPG'' n \<or> ends_in env ''.jpg'' n) (visible_entries env fpath)"

section \<open>Multispectral capture sets\<close>

text \<open>
  \<open>re.match(r'DJI_(\d{14})_(\d+)_MS_(\w+)\.TIF', filename, re.IGNORECASE)\<close>, returning
  the three groups with the band already upper-cased. The match is anchored at the start
  only. Each repetition is followed by a character outside its class, so it takes the
  whole run.
\<close>

definition ci_prefix :: "string \<Rightarrow> string \<Rightarrow> bool" where
  "ci_prefix lit s = (length lit \<le> length s \<and> str_upper (take (length lit) s) = str_upper lit)"

definition ms_filename_match :: "string \<Rightarrow> (string \<times> string \<times> string) option" where
  "ms_filename_match filename =
     (if ci_prefix ''DJI_'' filename then
        (let rest = drop 4 filename;
             timestamp = take 14 rest;
             rest = drop 14 rest
         in if length timestamp = 14 \<and> list_all is_digit timestamp \<and> prefix ''_'' rest then
              (let rest = drop 1 rest;
                   image_num = takeWhile is_digit rest;
                   rest = dropWhile is_digit rest
               in if image_num \<noteq> [] \<and> ci_prefix ''_MS_'' rest then
                    (let rest = drop 4 rest;
                         band = takeWhile is_word rest;
                         rest = dropWhile is_word rest
                     in if band \<noteq> [] \<and> ci_prefix ''.TIF'' rest
                        then Some (timestamp, image_num, str_upper band) else None)
                  else None)
            else None)
      else None)"

text \<open>
  \<open>capture_groups\<close> is a dictionary from capture key to a dictionary from band to file
  path; both keep insertion order, and assigning to a key that is present replaces its
  value in place. \<open>band_counts\<close> has the four fixed keys.
\<close>

type_synonym capture_groups = "(string \<times> (string \<times> string) list) list"

type_synonym band_counts = "(string \<times> nat) list"

definition capture_key :: "string \<Rightarrow> string \<Rightarrow> string" where
  "capture_key timestamp image_num = timestamp @ ''_'' @ image_num"

text \<open>One turn of the loop \<open>for file_path in ms_files\<close>.\<close>

definition group_file :: "capture_groups \<times> band_counts \<Rightarrow> string \<Rightarrow> capture_groups \<times> band_counts" where
  "group_file state file_path =
     (case state of (groups, counts) \<Rightarrow>
        (case ms_filename_match (basename file_path) of
           None \<Rightarrow> (groups, counts)
         | Some (timestamp, image_num, band) \<Rightarrow>
             (let key = capture_key timestamp image_num;
                  groups = (if map_of groups key = None then groups @ [(key, [])] else groups);
                  bands = (case map_of groups key of None \<Rightarrow> [] | Some bs \<Rightarrow> bs);
                  groups = AList.update key (AList.update band file_path bands) groups;
                  counts = map (\<lambda>(b, n). if b = band then (b, Suc n) else (b, n)) counts
              in (groups, counts))))"

definition group_captures :: "string list \<Rightarrow> capture_groups \<times> band_counts" where
  "group_captures ms_files =
     foldl group_file ([], [(''G'', 0), (''NIR'', 0), (''R'', 0), (''RE'', 0)]) ms_files"

definition required_bands :: "string list" where
  "required_bands = [''G'', ''NIR'', ''R'', ''RE'']"

definition is_complete :: "(string \<times> string) list \<Rightarrow> bool" where
  "is_complete bands = (length bands = 4 \<and> list_all (\<lambda>band. map_of bands band \<noteq> None) required_bands)"

text \<open>\<open>bands[band]\<close> for the four bands in turn; the lookups come after the test above.\<close>

definition capture_files :: "(string \<times> string) list \<Rightarrow> string list" where
  "capture_files bands = List.map_filter (map_of bands) required_bands"

text \<open>The loop over \<open>capture_groups.items()\<close> that counts and collects the complete sets.\<close>

definition collect_complete :: "capture_groups \<Rightarrow> nat \<times> string list" where
  "collect_complete groups =
     foldl (\<lambda>(complete_captures, all_ms_files) (key, bands).
              if is_complete bands
              then (complete_captures + 1, all_ms_files @ capture_files bands)
              else (complete_captures, all_ms_files))
       (0, []) groups"

record ms_route_folder =
  ms_folder_name :: string
  ms_folder_path :: string
  ms_route_number :: string
  ms_captures :: nat
  ms_files_count :: nat
  band_counts :: band_counts
  ms_image_files :: "string list"
  complete_sets :: nat

text \<open>
  The body of the loop of \<open>scan_dcim_folders_ms\<close> (single-route multispectral script) for
  one folder whose name matched: the record appended to the catalog, if any. \<open>ms_files\<close>
  collects what \<open>glob\<close> returns for the two patterns, one after the other.
\<close>

definition ms_patterns :: "string \<Rightarrow> string list" where
  "ms_patterns fpath = [path_join fpath ''*_MS_*.TIF'', path_join fpath ''*_MS_*.tif'']"

definition scan_ms_folder :: "python_env \<Rightarrow> string \<Rightarrow> string \<Rightarrow> string \<Rightarrow> ms_route_folder option" where
  "scan_ms_folder env folder fpath route_no =
     (let ms_files = concat (map (glob env) (ms_patterns fpath));
          (groups, counts) = group_captures ms_files;
          (complete_captures, all_ms_files) = collect_complete groups
      in if complete_captures > 0
         then Some \<lparr>ms_folder_name = folder, ms_folder_path = fpath,
                    ms_route_number = route_no, ms_captures = complete_captures,
                    ms_files_count = length ms_files, band_counts = counts,
                    ms_image_files = all_ms_files, complete_sets = complete_captures\<rparr>
         else None)"

text \<open>
  The variable \<open>pattern\<close> of \<open>scan_dcim_folders_ms\<close> holds the route grammar when the loop
  over the folders starts. The inner loop \<open>for pattern in ms_patterns\<close> assigns to the same
  variable, so after the first folder whose name matched it holds the last glob pattern of
  that folder, and \<open>re.match(pattern, folder)\<close> reads that path as a regular expression
  for every folder that follows.
\<close>

datatype route_pattern = RouteGrammar | Overwritten string

definition match_folder :: "python_env \<Rightarrow> route_pattern \<Rightarrow> string \<Rightarrow> re_outcome" where
  "match_folder env pattern folder =
     (case pattern of
        RouteGrammar \<Rightarrow> (case match_route folder of None \<Rightarrow> NoMatch | Some route_no \<Rightarrow> Group1 route_no)
      | Overwritten p \<Rightarrow> re_match_group1 env p folder)"

datatype scan_error = ListdirError py_error | PatternError string

text \<open>One turn of the loop over \<open>os.listdir(dcim_path)\<close>; the state is \<open>pattern\<close> and \<open>route_folders\<close>.\<close>

definition scan_ms_step ::
  "python_env \<Rightarrow> string \<Rightarrow> scan_error + route_pattern \<times> ms_route_folder list \<Rightarrow> string \<Rightarrow>
     scan_error + route_pattern \<times> ms_route_folder list" where
  "scan_ms_step env dcim_path state folder =
     (case state of
        Inl e \<Rightarrow> Inl e
      | Inr (pattern, route_folders) \<Rightarrow>
          (let folder_path = path_join dcim_path folder
           in if os_isdir env folder_path then
                (case match_folder env pattern folder of
                   ReRaises msg \<Rightarrow> Inl (PatternError msg)
                 | NoMatch \<Rightarrow> Inr (pattern, route_folders)
                 | Group1 route_no \<Rightarrow>
                     Inr (Overwritten (last (ms_patterns folder_path)),
                          (case scan_ms_folder env folder folder_path route_no of
                             None \<Rightarrow> route_folders
                           | Some entry \<Rightarrow> route_folders @ [entry])))
              else Inr (pattern, route_folders)))"

definition scan_dcim_folders_ms :: "python_env \<Rightarrow> string \<Rightarrow> scan_error + ms_route_folder list" where
  "scan_dcim_folders_ms env dcim_path =
     (if \<not> os_exists env dcim_path then Inr []
      else
        (case os_listdir env dcim_path of
           Inl e \<Rightarrow> Inl (ListdirError e)
         | Inr entries \<Rightarrow>
             (case foldl (scan_ms_step env dcim_path) (Inr (RouteGrammar, [])) entries of
                Inl e \<Rightarrow> Inl e
              | Inr (pattern, route_folders) \<Rightarrow> Inr (sort_key ms_route_number route_folders))))"

text \<open>What a file path says about its capture, and the bands on file for a capture.\<close>

definition parsed :: "string \<Rightarrow> (string \<times> string \<times> string) option" where
  "parsed file_path = ms_filename_match (basename file_path)"

definition bands_on_file :: "string list \<Rightarrow> string \<Rightarrow> string \<Rightarrow> string set" where
  "bands_on_file files timestamp image_num =
     {band. \<exists>f\<in>set files. parsed f = Some (timestamp, image_num, band)}"

text \<open>The effect of one matching file on \<open>capture_groups\<close>.\<close>

definition add_capture :: "capture_groups \<Rightarrow> string \<Rightarrow> string \<Rightarrow> string \<Rightarrow> capture_groups" where
  "add_capture groups key band file_path =
     AList.update key
       (AList.update band file_path (case map_of groups key of None \<Rightarrow> [] | Some bs \<Rightarrow> bs))
       groups"

text \<open>The complete capture sets among the groups, in dictionary order.\<close>

definition complete_groups :: "capture_groups \<Rightarrow> capture_groups" where
  "complete_groups groups = filter (\<lambda>(key, bands). is_complete bands) groups"

text \<open>
  What holds of \<open>capture_groups\<close> after the files \<open>files\<close> have been grouped: keys and
  bands are not repeated, every stored path is one of the files and sits under its own
  capture key and band, and every file that matched is represented.
\<close>

definition grouping_inv :: "string list \<Rightarrow> capture_groups \<Rightarrow> bool" where
  "grouping_inv files groups \<longleftrightarrow>
     distinct (map fst groups) \<and>
     (\<forall>k bands. map_of groups k = Some bands \<longrightarrow>
        distinct (map fst bands) \<and>
        (\<forall>b f. map_of bands b = Some f \<longrightarrow>
           f \<in> set files \<and> (\<exists>ts num. parsed f = Some (ts, num, b) \<and> k = capture_key ts num))) \<and>
     (\<forall>f\<in>set files. \<forall>ts num b. parsed f = Some (ts, num, b) \<longrightarrow>
        (\<exists>bands. map_of groups (capture_key ts num) = Some bands \<and> map_of bands b \<noteq> None))"

section \<open>Versioned project paths\<close>

text \<open>
  The versioner probes the output directory. Its content is an association list from entry
  name to entry; a missing output directory behaves like an
  empty one, since \<open>os.path.exists\<close> is then false for every candidate and
  \<open>os.makedirs\<close> creates the parents.
\<close>

type_synonym listing = "(string \<times> dir_entry) list"

text \<open>\<open>os.makedirs(path, exist_ok=True)\<close> for an entry of the output directory.\<close>

definition makedirs :: "listing \<Rightarrow> string \<Rightarrow> py_error + listing" where
  "makedirs outdir name =
     (case map_of outdir name of
        None \<Rightarrow> Inr (outdir @ [(name, Folder [])])
      | Some File \<Rightarrow> Inl FileExistsError
      | Some (Folder names) \<Rightarrow> Inr outdir)"

text \<open>
  The \<open>while True\<close> loop shared by \<open>create_project_structure\<close> (single-route RGB),
  \<open>create_project_structure_ms\<close> (single-route MS) and the three
  \<open>create_combined_project_structure\<close> functions. The loop state is \<open>version\<close>,
  \<open>project_folder\<close> and \<open>project_file\<close>; in each of them the versioned file name is the
  base folder name followed by \<open>_v<version>.psx\<close>. \<open>os.listdir\<close> raises on a regular
  file. The loop has no bound of its own, so not returning is the value \<open>None\<close>.
\<close>

partial_function (option) version_loop ::
  "listing \<Rightarrow> string \<Rightarrow> nat \<Rightarrow> string \<Rightarrow> string \<Rightarrow> (py_error + nat \<times> string \<times> string) option" where
  "version_loop outdir base_project_folder version project_folder project_file =
     (case map_of outdir project_folder of
        None \<Rightarrow> Some (Inr (version, project_folder, project_file))
      | Some File \<Rightarrow> Some (Inl NotADirectoryError)
      | Some (Folder names) \<Rightarrow>
          (if names \<noteq> []
           then version_loop outdir base_project_folder (version + 1)
                  (base_project_folder @ ''_v'' @ str_nat (version + 1))
                  (base_project_folder @ ''_v'' @ str_nat (version + 1) @ ''.psx'')
           else Some (Inr (version, project_folder, project_file))))"

declare version_loop.simps [code]

definition versioned_project ::
  "listing \<Rightarrow> string \<Rightarrow> string \<Rightarrow> (py_error + (string \<times> string) \<times> listing) option" where
  "versioned_project outdir output_base base_project_folder =
     (case version_loop outdir base_project_folder 1 base_project_folder
             (base_project_folder @ ''.psx'') of
        None \<Rightarrow> None
      | Some (Inl e) \<Rightarrow> Some (Inl e)
      | Some (Inr (version, project_folder, project_file)) \<Rightarrow>
          (case makedirs outdir project_folder of
             Inl e \<Rightarrow> Some (Inl e)
           | Inr outdir' \<Rightarrow>
               (let project_path = path_join output_base project_folder;
                    project_full_path = path_join project_path project_file
                in Some (Inr ((project_path, project_full_path), outdir')))))"

text \<open>\<open>create_project_structure(route_info, output_base)\<close> of the single-route RGB script.\<close>

definition create_project_structure ::
  "listing \<Rightarrow> string \<Rightarrow> string \<Rightarrow> (py_error + (string \<times> string) \<times> listing) option" where
  "create_project_structure outdir route_no output_base =
     versioned_project outdir output_base (''route_'' @ route_no @ ''_RGB'')"

text \<open>\<open>create_project_structure_ms(route_info, output_base)\<close> of the single-route MS script.\<close>

definition create_project_structure_ms ::
  "listing \<Rightarrow> string \<Rightarrow> string \<Rightarrow> (py_error + (string \<times> string) \<times> listing) option" where
  "create_project_structure_ms outdir route_no output_base =
     versioned_project outdir output_base (''route_'' @ route_no @ ''_MS'')"

text \<open>
  \<open>create_combined_project_structure(output_base, route_numbers)\<close> of the three multi-route
  scripts; \<open>kind\<close> is \<open>RGB\<close>, \<open>MS\<close> or \<open>RGB_MS\<close>.
\<close>

fun str_join :: "string \<Rightarrow> string list \<Rightarrow> string" where
  "str_join sep [] = []"
| "str_join sep [x] = x"
| "str_join sep (x # y # ys) = x @ sep @ str_join sep (y # ys)"

definition create_combined_project_structure ::
  "string \<Rightarrow> listing \<Rightarrow> string \<Rightarrow> string list \<Rightarrow> (py_error + (string \<times> string) \<times> listing) option" where
  "create_combined_project_structure kind outdir output_base route_numbers =
     versioned_project outdir output_base
       (''combined_routes_'' @ str_join ''_'' route_numbers @ ''_'' @ kind)"

text \<open>
  \<open>create_project_structure(base_path, route_name)\<close> of the single-route RGB+MS script:
  its loop skips every name that exists, and the folder it creates receives four
  subfolders. It returns the folder path and the folder name.
\<close>

partial_function (option) combined_version_loop :: "listing \<Rightarrow> string \<Rightarrow> nat \<Rightarrow> (nat \<times> string) option" where
  "combined_version_loop outdir base_project_name version =
     (if map_of outdir (if version = 1 then base_project_name
                        else base_project_name @ ''_v'' @ str_nat version) = None
      then Some (version, (if version = 1 then base_project_name
                           else base_project_name @ ''_v'' @ str_nat version))
      else combined_version_loop outdir base_project_name (version + 1))"

declare combined_version_loop.simps [code]

definition add_subfolders :: "string list \<Rightarrow> string list \<Rightarrow> string list" where
  "add_subfolders names subfolders = names @ filter (\<lambda>s. s \<notin> set names) subfolders"

definition create_project_structure_rgb_ms_single ::
  "listing \<Rightarrow> string \<Rightarrow> string \<Rightarrow> (py_error + (string \<times> string) \<times> listing) option" where
  "create_project_structure_rgb_ms_single outdir base_path route_name =
     (case combined_version_loop outdir (''route_'' @ route_name @ ''_Combined'') 1 of
        None \<Rightarrow> None
      | Some (version, project_folder_name) \<Rightarrow>
          (case makedirs outdir project_folder_name of
             Inl e \<Rightarrow> Some (Inl e)
           | Inr outdir' \<Rightarrow>
               Some (Inr ((path_join base_path project_folder_name, project_folder_name),
                 AList.map_entry project_folder_name
                   (\<lambda>e. case e of File \<Rightarrow> File
                        | Folder names \<Rightarrow>
                            Folder (add_subfolders names
                              [''orthomosaic'', ''dem'', ''pointcloud'', ''report'']))
                   outdir'))))"

text \<open>The names the loop tries, by version, and what stops it.\<close>

definition folder_for :: "string \<Rightarrow> nat \<Rightarrow> string" where
  "folder_for base version = (if version = 1 then base else base @ ''_v'' @ str_nat version)"

definition file_for :: "string \<Rightarrow> nat \<Rightarrow> string" where
  "file_for base version = folder_for base version @ ''.psx''"

definition nonempty_folder :: "listing \<Rightarrow> string \<Rightarrow> bool" where
  "nonempty_folder outdir name =
     (case map_of outdir name of Some (Folder names) \<Rightarrow> names \<noteq> [] | _ \<Rightarrow> False)"

section \<open>Calls into the processing engine\<close>

text \<open>
  The engine is outside the repository. A call into it either returns or raises an
  exception with a message; what it does is a parameter of the model.
\<close>

datatype 'a outcome = Raises string | Returns 'a

subsection \<open>Saving the project\<close>

text \<open>
  What \<open>enhanced_save_project\<close> asks of the engine: whether the chunk is in the document,
  \<open>doc.append(chunk)\<close>, \<open>doc.save(project_path, chunks=[chunk], archive=True)\<close> and
  \<open>doc.save(project_path)\<close>. The function is modelled with the list of the calls it made.
\<close>

record save_engine =
  chunk_in_doc :: "bool outcome"
  append_chunk :: "unit outcome"
  save_chunks :: "unit outcome"
  save_plain :: "unit outcome"

datatype engine_call = CallAppend | CallSaveChunks | CallSave

text \<open>The body of the \<open>try\<close> block in the single-route scripts.\<close>

definition primary_save :: "save_engine \<Rightarrow> (string + bool) \<times> engine_call list" where
  "primary_save eng =
     (case chunk_in_doc eng of
        Raises msg \<Rightarrow> (Inl msg, [])
      | Returns present \<Rightarrow>
          (case (if \<not> present then append_chunk eng else Returns ()) of
             Raises msg \<Rightarrow> (Inl msg, [CallAppend])
           | Returns _ \<Rightarrow>
               (let calls = (if \<not> present then [CallAppend] else [])
                in case save_chunks eng of
                     Raises msg \<Rightarrow> (Inl msg, calls @ [CallSaveChunks])
                   | Returns _ \<Rightarrow> (Inr True, calls @ [CallSaveChunks]))))"

text \<open>
  \<open>enhanced_save_project\<close> of the single-route scripts (RGB, MS, RGB+MS): the \<open>except\<close>
  branch saves once more without the \<open>chunks\<close> argument.
\<close>

definition enhanced_save_project :: "save_engine \<Rightarrow> (string + bool) \<times> engine_call list" where
  "enhanced_save_project eng =
     (case primary_save eng of
        (Inr saved, calls) \<Rightarrow> (Inr saved, calls)
      | (Inl msg, calls) \<Rightarrow>
          (case save_plain eng of
             Returns _ \<Rightarrow> (Inr True, calls @ [CallSave])
           | Raises msg2 \<Rightarrow> (Inr False, calls @ [CallSave])))"

text \<open>
  \<open>enhanced_save_project\<close> of the three multi-route scripts: one \<open>doc.save(project_path)\<close>
  and no second attempt.
\<close>

definition enhanced_save_project_combined :: "save_engine \<Rightarrow> (string + bool) \<times> engine_call list" where
  "enhanced_save_project_combined eng =
     (case save_plain eng of
        Returns _ \<Rightarrow> (Inr True, [CallSave])
      | Raises msg \<Rightarrow> (Inr False, [CallSave]))"

text \<open>Whether everything in the \<open>try\<close> block of the single-route scripts went through.\<close>

definition primary_ok :: "save_engine \<Rightarrow> bool" where
  "primary_ok eng =
     ((chunk_in_doc eng = Returns True \<or>
       chunk_in_doc eng = Returns False \<and> append_chunk eng = Returns ()) \<and>
      save_chunks eng = Returns ())"

subsection \<open>Merging chunks\<close>

text \<open>
  Of a chunk the merge reads its label, the number of cameras, the number of projections of
  each marker and the coordinate system. \<open>chunk_id\<close> stands for the identity of the object.
\<close>

record chunk =
  chunk_id :: nat
  chunk_label :: string
  cameras :: nat
  markers :: "nat list"
  crs :: "string option"

text \<open>
  \<open>doc.alignChunks\<close>, \<open>doc.mergeChunks\<close> and \<open>doc.remove\<close>, each given the chunks of the
  document; the last two return the chunks of the document afterwards.
\<close>

record merge_engine =
  alignChunks :: "chunk list \<Rightarrow> chunk list \<Rightarrow> unit outcome"
  mergeChunks :: "chunk list \<Rightarrow> chunk list \<Rightarrow> chunk list outcome"
  remove_chunk :: "chunk list \<Rightarrow> chunk \<Rightarrow> chunk list outcome"

text \<open>The lines of the printed report that come from a check; progress lines are left out.\<close>

datatype merge_report =
  RemoveError string
| ChunkCountWarning nat
| CleanupVerified
| CameraCountMismatch nat nat
| CameraCountValidated nat
| MarkerConsolidation nat nat

text \<open>The loop \<open>for chunk_to_remove in reversed(chunks_to_remove)\<close>; a failed removal is reported and skipped.\<close>

fun remove_originals :: "merge_engine \<Rightarrow> chunk list \<Rightarrow> chunk list \<Rightarrow> chunk list \<times> merge_report list" where
  "remove_originals eng doc [] = (doc, [])"
| "remove_originals eng doc (c # cs) =
     (case remove_chunk eng doc c of
        Returns doc' \<Rightarrow> remove_originals eng doc' cs
      | Raises msg \<Rightarrow>
          (case remove_originals eng doc cs of
             (doc', report) \<Rightarrow> (doc', RemoveError msg # report)))"

text \<open>
  \<open>merge_chunks_with_validation(doc, chunks_to_merge)\<close> of the three multi-route scripts,
  which differ in the label given to the merged chunk and in the word that starts the
  messages. Every exception inside the \<open>try\<close> block is raised again as a
  \<open>RuntimeError\<close>.
\<close>

definition merge_chunks_with_validation ::
  "string \<Rightarrow> string \<Rightarrow> merge_engine \<Rightarrow> chunk list \<Rightarrow> chunk list \<Rightarrow>
     (py_error + chunk) \<times> merge_report list" where
  "merge_chunks_with_validation merged_label kind eng doc chunks_to_merge =
     (let total_markers_before = sum_list (map (\<lambda>c. length (markers c)) chunks_to_merge);
          total_cameras_before = sum_list (map cameras chunks_to_merge);
          chunks_before_merge = length doc;
          coordinate_systems = remdups (List.map_filter crs chunks_to_merge);
          failed = (\<lambda>msg. RuntimeError (kind @ '' chunk merge failed: '' @ msg))
      in case (if length coordinate_systems > 1 then alignChunks eng doc chunks_to_merge
               else Returns ()) of
           Raises msg \<Rightarrow> (Inl (failed msg), [])
         | Returns _ \<Rightarrow>
             (case mergeChunks eng doc chunks_to_merge of
                Raises msg \<Rightarrow> (Inl (failed msg), [])
              | Returns doc1 \<Rightarrow>
                  if length doc1 \<le> chunks_before_merge
                  then (Inl (failed ''No new chunk created during merge!''), [])
                  else
                    (let merged_chunk = (last doc1)\<lparr>chunk_label := merged_label\<rparr>;
                         doc2 = butlast doc1 @ [merged_chunk];
                         chunks_to_remove =
                           filter (\<lambda>c. chunk_id c \<in> chunk_id ` set doc2) chunks_to_merge;
                         (doc3, removal_report) = remove_originals eng doc2 (rev chunks_to_remove);
                         final_chunk_count = length doc3;
                         cleanup_report = (if final_chunk_count \<noteq> 1
                                           then [ChunkCountWarning final_chunk_count]
                                           else [CleanupVerified]);
                         merged_markers = length (markers merged_chunk);
                         merged_cameras = cameras merged_chunk;
                         merged_projections = sum_list (markers merged_chunk);
                         camera_report = (if merged_cameras \<noteq> total_cameras_before
                                          then [CameraCountMismatch total_cameras_before merged_cameras]
                                          else [CameraCountValidated merged_cameras]);
                         report = removal_report @ cleanup_report @ camera_report @
                                  [MarkerConsolidation total_markers_before merged_markers]
                     in if merged_projections = 0
                        then (Inl (failed ''No marker projections found after merge!''), report)
                        else (Inr merged_chunk, report))))"

text \<open>
  The merge step of \<open>process_combined_routes\<close>: an exception from the merge ends the run
  with \<open>False\<close>; otherwise the run goes on with the merged chunk.
\<close>

datatype merge_step = RunAborted | RunContinues chunk

definition merge_step_of :: "(py_error + chunk) \<Rightarrow> merge_step" where
  "merge_step_of result = (case result of Inl e \<Rightarrow> RunAborted | Inr merged \<Rightarrow> RunContinues merged)"

text \<open>The merge gets as far as its checks: alignment (if any) and merge went through, and the document grew.\<close>

definition merge_reaches_checks :: "merge_engine \<Rightarrow> chunk list \<Rightarrow> chunk list \<Rightarrow> chunk list \<Rightarrow> bool" where
  "merge_reaches_checks eng doc chunks_to_merge doc1 =
     ((length (remdups (List.map_filter crs chunks_to_merge)) > 1 \<longrightarrow>
         alignChunks eng doc chunks_to_merge = Returns ()) \<and>
      mergeChunks eng doc chunks_to_merge = Returns doc1 \<and>
      length doc < length doc1)"

section \<open>Multi-route entry points\<close>

text \<open>The module-level configuration of a multi-route script; \<open>None\<close> is Python's \<open>None\<close>.\<close>

record config =
  dcim_base_path :: "string option"
  gcp_base_path :: "string option"
  output_base_path :: "string option"
  routes_to_combine :: "string list"

text \<open>The four keyword arguments of \<open>process_combined_routes\<close>, each \<open>None\<close> when omitted.\<close>

record call_args =
  arg_route_numbers :: "string list option"
  arg_dcim_path :: "string option"
  arg_gcp_path :: "string option"
  arg_output_path :: "string option"

text \<open>
  The first four lines of \<open>process_combined_routes\<close> in the multi-route RGB script and in
  the multi-route MS script.
\<close>

definition apply_defaults :: "config \<Rightarrow> call_args \<Rightarrow> call_args" where
  "apply_defaults cfg args =
     (let route_numbers = (case arg_route_numbers args of None \<Rightarrow> Some (routes_to_combine cfg) | Some r \<Rightarrow> Some r);
          dcim_path = (case arg_dcim_path args of None \<Rightarrow> dcim_base_path cfg | Some p \<Rightarrow> Some p);
          gcp_path = (case arg_gcp_path args of None \<Rightarrow> gcp_base_path cfg | Some p \<Rightarrow> Some p);
          output_path = (case arg_output_path args of None \<Rightarrow> output_base_path cfg | Some p \<Rightarrow> Some p)
      in \<lparr>arg_route_numbers = route_numbers, arg_dcim_path = dcim_path, arg_gcp_path = gcp_path,
          arg_output_path = output_path\<rparr>)"

text \<open>
  The same four lines in the multi-route RGB+MS script; the third one reads
  \<open>if gcp_path is None: gcp_path = output_path\<close>, and \<open>output_path\<close> gets its own default
  only in the fourth.
\<close>

definition apply_defaults_rgb_ms :: "config \<Rightarrow> call_args \<Rightarrow> call_args" where
  "apply_defaults_rgb_ms cfg args =
     (let route_numbers = (case arg_route_numbers args of None \<Rightarrow> Some (routes_to_combine cfg) | Some r \<Rightarrow> Some r);
          dcim_path = (case arg_dcim_path args of None \<Rightarrow> dcim_base_path cfg | Some p \<Rightarrow> Some p);
          gcp_path = (case arg_gcp_path args of None \<Rightarrow> arg_output_path args | Some p \<Rightarrow> Some p);
          output_path = (case arg_output_path args of None \<Rightarrow> output_base_path cfg | Some p \<Rightarrow> Some p)
      in \<lparr>arg_route_numbers = route_numbers, arg_dcim_path = dcim_path, arg_gcp_path = gcp_path,
          arg_output_path = output_path\<rparr>)"

datatype variant = RGB | MS | RGB_MS

text \<open>
  \<open>find_routes_by_numbers(route_numbers, dcim_path)\<close>, the same in the three multi-route
  scripts. \<open>all_routes\<close> is the catalog its call of the scan returned; \<open>number_of\<close> reads
  \<open>route['route_number']\<close>. The inner loop takes the first catalog entry with the requested
  number.
\<close>

definition find_routes_by_numbers :: "('r \<Rightarrow> string) \<Rightarrow> string list \<Rightarrow> 'r list \<Rightarrow> 'r list" where
  "find_routes_by_numbers number_of route_numbers all_routes =
     (if all_routes = [] then []
      else
        (let found_routes =
               List.map_filter (\<lambda>route_num. find (\<lambda>route. number_of route = route_num) all_routes)
                 route_numbers
         in if length found_routes < 2 then [] else found_routes))"

definition get_gcp_file_path :: "variant \<Rightarrow> string \<Rightarrow> string \<Rightarrow> string" where
  "get_gcp_file_path v route_no gcp_base =
     path_join gcp_base
       (case v of MS \<Rightarrow> ''gcp_route_'' @ route_no @ ''_MS.xml''
        | _ \<Rightarrow> ''gcp_route_'' @ route_no @ ''.xml'')"

text \<open>
  \<open>validate_routes_and_gcps(routes, gcp_base_path)\<close>: the routes whose GCP file exists, each
  with the path of that file. \<open>file_exists\<close> is \<open>os.path.exists\<close>.
\<close>

definition validate_routes_and_gcps ::
  "variant \<Rightarrow> (string \<Rightarrow> bool) \<Rightarrow> ('r \<Rightarrow> string) \<Rightarrow> 'r list \<Rightarrow> string \<Rightarrow> ('r \<times> string) list" where
  "validate_routes_and_gcps v file_exists number_of routes gcp_base =
     map (\<lambda>route. (route, get_gcp_file_path v (number_of route) gcp_base))
       (filter (\<lambda>route. file_exists (get_gcp_file_path v (number_of route) gcp_base)) routes)"

text \<open>
  \<open>process_combined_routes\<close> up to its first call into the engine: it returns \<open>False\<close>
  after printing a message, or it goes on to create the project folder and the engine
  document for the validated routes. \<open>scan\<close> is the directory scan of the script; an
  exception from it is caught by the \<open>try\<close> block around the whole run.
\<close>

datatype 'r run_start =
  ReturnsFalse string
| StartsEngine "('r \<times> string) list" string

definition falsy :: "string option \<Rightarrow> bool" where
  "falsy p = (p = None \<or> p = Some [])"

definition process_combined_routes ::
  "variant \<Rightarrow> config \<Rightarrow> (string \<Rightarrow> py_error + 'r list) \<Rightarrow> (string \<Rightarrow> bool) \<Rightarrow> ('r \<Rightarrow> string) \<Rightarrow>
     call_args \<Rightarrow> 'r run_start" where
  "process_combined_routes v cfg scan file_exists number_of args =
     (let args = (case v of RGB_MS \<Rightarrow> apply_defaults_rgb_ms cfg args | _ \<Rightarrow> apply_defaults cfg args)
      in case (arg_route_numbers args, arg_dcim_path args, arg_gcp_path args, arg_output_path args) of
           (Some route_nos, Some dcim, Some gcp, Some output) \<Rightarrow>
             (if dcim = [] \<or> gcp = [] \<or> output = [] \<or> route_nos = []
              then ReturnsFalse ''ERROR: Configuration incomplete!''
              else
                (case scan dcim of
                   Inl e \<Rightarrow> ReturnsFalse ''FATAL ERROR during processing''
                 | Inr all_routes \<Rightarrow>
                     (let found_routes = find_routes_by_numbers number_of route_nos all_routes
                      in if found_routes = [] then ReturnsFalse ''route discovery failed!''
                         else
                           (let valid_routes =
                                  validate_routes_and_gcps v file_exists number_of found_routes gcp
                            in if valid_routes = [] then ReturnsFalse ''route validation failed!''
                               else StartsEngine valid_routes output))))
         | _ \<Rightarrow> ReturnsFalse ''ERROR: Configuration incomplete!'')"

text \<open>\<open>run_combined_..._automation()\<close> after \<open>validate_configuration()\<close> passed: a call without arguments.\<close>

definition no_args :: call_args where
  "no_args = \<lparr>arg_route_numbers = None, arg_dcim_path = None, arg_gcp_path = None, arg_output_path = None\<rparr>"

text \<open>The requested route numbers that occur in the catalog, with repetitions.\<close>

definition resolved_numbers :: "('r \<Rightarrow> string) \<Rightarrow> string list \<Rightarrow> 'r list \<Rightarrow> string list" where
  "resolved_numbers number_of route_numbers all_routes =
     filter (\<lambda>route_num. route_num \<in> number_of ` set all_routes) route_numbers"

section \<open>The configuration tool\<close>

text \<open>
  The fields \<open>validate_inputs\<close> reads: four path fields and the route mode as strings, and
  the selected routes. It returns \<open>False\<close> after showing one error message, or \<open>True\<close>.
\<close>

record 'r gui_state =
  script_base_path :: string
  gui_dcim_path :: string
  gui_gcp_path :: string
  gui_output_path :: string
  selected_routes :: "'r list"
  route_mode :: string

definition validate_inputs :: "'r gui_state \<Rightarrow> bool \<times> string list" where
  "validate_inputs st =
     (if script_base_path st = [] then (False, [''Please select script folder''])
      else if gui_dcim_path st = [] then (False, [''Please select DCIM folder''])
      else if gui_gcp_path st = [] then (False, [''Please select GCP folder''])
      else if gui_output_path st = [] then (False, [''Please select output folder''])
      else if selected_routes st = [] then (False, [''Please select at least one route''])
      else if route_mode st = ''Multiple'' \<and> length (selected_routes st) < 2
        then (False, [''Multiple route mode requires at least 2 routes''])
      else (True, []))"

text \<open>The route numbers and the DCIM path a call works with, the same in the three scripts.\<close>

definition effective_route_numbers :: "config \<Rightarrow> call_args \<Rightarrow> string list" where
  "effective_route_numbers cfg args =
     (case arg_route_numbers args of None \<Rightarrow> routes_to_combine cfg | Some r \<Rightarrow> r)"

definition effective_dcim :: "config \<Rightarrow> call_args \<Rightarrow> string option" where
  "effective_dcim cfg args =
     (case arg_dcim_path args of None \<Rightarrow> dcim_base_path cfg | Some p \<Rightarrow> Some p)"

section \<open>Properties of the file-name patterns\<close>

lemma glob_match_literal:
  "CHR ''*'' \<notin> set p \<Longrightarrow> CHR ''?'' \<notin> set p \<Longrightarrow> glob_match p s = (s = p)"
  by (induction p s rule: glob_match.induct) auto

lemma glob_match_star_literal:
  "CHR ''*'' \<notin> set p \<Longrightarrow> CHR ''?'' \<notin> set p \<Longrightarrow> glob_match (CHR ''*'' # p) s = suffix p s"
  by (induction s) (auto simp: glob_match_literal suffix_Cons)

lemma path_split_join:
  assumes "plain_folder_path fp" "CHR ''/'' \<notin> set pat"
  shows "path_split (path_join fp pat) = (fp, pat)"
proof -
  from assms(1) have ne: "fp \<noteq> []" and l: "last fp \<noteq> CHR ''/''"
    by (simp_all add: plain_folder_path_def)
  have j: "path_join fp pat = fp @ CHR ''/'' # pat"
    using ne l by (simp add: path_join_def)
  have tw: "takeWhile (\<lambda>c. c \<noteq> CHR ''/'') (rev pat @ CHR ''/'' # rev fp) = rev pat"
    using assms(2) by (auto simp: takeWhile_tail)
  have tail: "rev (takeWhile (\<lambda>c. c \<noteq> CHR ''/'') (rev (fp @ CHR ''/'' # pat))) = pat"
    using tw by simp
  have head: "take (length (fp @ CHR ''/'' # pat) - length pat) (fp @ CHR ''/'' # pat) = fp @ ''/''"
    by simp
  have "last fp \<in> set fp"
    using ne by simp
  with l have notall: "\<not> list_all (\<lambda>c. c = CHR ''/'') (fp @ ''/'')"
    unfolding list_all_iff by auto
  have strip: "rev (dropWhile (\<lambda>c. c = CHR ''/'') (rev (fp @ ''/''))) = fp"
  proof -
    have "rev fp \<noteq> []" using ne by simp
    moreover have "hd (rev fp) \<noteq> CHR ''/''" using ne l by (simp add: hd_rev)
    ultimately have "dropWhile (\<lambda>c. c = CHR ''/'') (rev fp) = rev fp"
      by (cases "rev fp") auto
    then show ?thesis by simp
  qed
  show ?thesis
    unfolding path_split_def Let_def j tail head using notall strip by simp
qed

lemma glob_plain_folder:
  assumes fp: "plain_folder_path fp" and pat: "CHR ''/'' \<notin> set pat" "has_magic pat"
  shows "glob env (path_join fp pat) = map (path_join fp) (glob1 env fp pat False)"
proof -
  from fp have ne: "fp \<noteq> []" and l: "last fp \<noteq> CHR ''/''" and nm: "\<not> has_magic fp"
    by (simp_all add: plain_folder_path_def)
  have j: "path_join fp pat = fp @ CHR ''/'' # pat"
    using ne l by (simp add: path_join_def)
  have m: "has_magic (path_join fp pat)"
    unfolding j using pat(2) by (simp add: has_magic_def)
  show ?thesis
    unfolding glob_def
    by (subst iglob.simps) (simp add: path_split_join [OF fp pat(1)] m ne nm pat(2))
qed

lemma normcase_star: "normcase env (CHR ''*'' # lit) = CHR ''*'' # normcase env lit"
  by (simp add: normcase_def str_lower_def lower_char_def is_upper_def)

lemma glob1_star_literal:
  assumes "fp \<noteq> []"
    and "CHR ''*'' \<notin> set (normcase env lit)" "CHR ''?'' \<notin> set (normcase env lit)"
        "CHR ''['' \<notin> set (normcase env lit)"
  shows "glob1 env fp (CHR ''*'' # lit) False = filter (ends_in env lit) (visible_entries env fp)"
  using assms
  by (simp add: glob1_def fnmatch_filter_def Let_def normcase_star is_hidden_def
      glob_match_star_literal visible_entries_def ends_in_def conj_commute split: sum.splits)

lemma str_lower_literals:
  "str_lower ''_D.JPG'' = ''_d.jpg''" "str_lower ''D.JPG'' = ''d.jpg''"
  "str_lower ''.JPG'' = ''.jpg''" "str_lower ''.jpg'' = ''.jpg''"
  by code_simp+

lemma tier_literals:
  "normcase env ''_D.JPG'' = ''_D.JPG'' \<or> normcase env ''_D.JPG'' = ''_d.jpg''"
  "normcase env ''D.JPG'' = ''D.JPG'' \<or> normcase env ''D.JPG'' = ''d.jpg''"
  "normcase env ''.JPG'' = ''.JPG'' \<or> normcase env ''.JPG'' = ''.jpg''"
  "normcase env ''.jpg'' = ''.jpg''"
  by (simp_all add: normcase_def str_lower_literals)

lemma glob_tier:
  assumes fp: "plain_folder_path fp"
    and lit: "lit \<in> {''_D.JPG'', ''D.JPG'', ''.JPG'', ''.jpg''}"
  shows "glob env (path_join fp (CHR ''*'' # lit)) =
           map (path_join fp) (filter (ends_in env lit) (visible_entries env fp))"
proof -
  from fp have ne: "fp \<noteq> []" by (simp add: plain_folder_path_def)
  have nm: "CHR ''*'' \<notin> set (normcase env lit)" "CHR ''?'' \<notin> set (normcase env lit)"
        "CHR ''['' \<notin> set (normcase env lit)"
    using lit tier_literals [of env] by auto
  have "glob env (path_join fp (CHR ''*'' # lit)) = map (path_join fp) (glob1 env fp (CHR ''*'' # lit) False)"
    using lit by (intro glob_plain_folder [OF fp]) (auto simp: has_magic_def)
  then show ?thesis
    by (simp add: glob1_star_literal [OF ne nm])
qed

section \<open>RGB classification: the first non-empty tier wins\<close>

lemma lower_char_cases:
  "lower_char c = CHR ''j'' \<longleftrightarrow> c = CHR ''j'' \<or> c = CHR ''J''"
  "lower_char c = CHR ''p'' \<longleftrightarrow> c = CHR ''p'' \<or> c = CHR ''P''"
  "lower_char c = CHR ''g'' \<longleftrightarrow> c = CHR ''g'' \<or> c = CHR ''G''"
  "lower_char c = CHR ''.'' \<longleftrightarrow> c = CHR ''.''"
  by (auto simp: lower_char_def is_upper_def char_of_def bit_Suc_0_iff)

lemma upper_char_cases:
  "upper_char c = CHR ''D'' \<longleftrightarrow> c = CHR ''D'' \<or> c = CHR ''d''"
  "upper_char c = CHR ''R'' \<longleftrightarrow> c = CHR ''R'' \<or> c = CHR ''r''"
  "upper_char c = CHR ''G'' \<longleftrightarrow> c = CHR ''G'' \<or> c = CHR ''g''"
  "upper_char c = CHR ''B'' \<longleftrightarrow> c = CHR ''B'' \<or> c = CHR ''b''"
  by (auto simp: upper_char_def is_lower_def char_of_def bit_Suc_0_iff)

lemma str_contains_single:
  "str_contains [x] s \<longleftrightarrow> x \<in> set s"
  by (induction s) auto

lemma has_d_upper: "str_contains ''D'' (str_upper f) \<longleftrightarrow> has_d f"
proof -
  have "CHR ''D'' \<in> upper_char ` set f \<longleftrightarrow> (\<exists>c\<in>set f. upper_char c = CHR ''D'')"
    unfolding image_iff by (simp add: eq_commute)
  also have "\<dots> \<longleftrightarrow> has_d f"
    unfolding upper_char_cases has_d_def by auto
  finally show ?thesis
    by (simp add: str_contains_single str_upper_def)
qed

lemma prefix_rgb:
  "prefix ''RGB'' (map upper_char s) \<longleftrightarrow>
     (\<exists>a b c cs. s = a # b # c # cs \<and> upper_char a = CHR ''R'' \<and> upper_char b = CHR ''G'' \<and>
        upper_char c = CHR ''B'')"
proof (cases s)
  case Nil
  then show ?thesis by simp
next
  case s1: (Cons a s1)
  show ?thesis
  proof (cases s1)
    case Nil
    with s1 show ?thesis by simp
  next
    case s2: (Cons b s2)
    show ?thesis
    proof (cases s2)
      case Nil
      with s1 s2 show ?thesis by simp
    next
      case (Cons c cs)
      with s1 s2 show ?thesis by (simp add: eq_commute [of "CHR ''R''"] eq_commute [of "CHR ''G''"] eq_commute [of "CHR ''B''"])
    qed
  qed
qed

lemma has_rgb_upper: "str_contains ''RGB'' (str_upper f) \<longleftrightarrow> has_rgb f"
  unfolding str_upper_def
proof (induction f rule: has_rgb.induct)
  case (1 a b c cs)
  have "str_contains ''RGB'' (map upper_char (a # b # c # cs)) \<longleftrightarrow>
        prefix ''RGB'' (map upper_char (a # b # c # cs)) \<or>
        str_contains ''RGB'' (map upper_char (b # c # cs))"
    by simp
  also have "\<dots> \<longleftrightarrow> (upper_char a = CHR ''R'' \<and> upper_char b = CHR ''G'' \<and> upper_char c = CHR ''B'')
        \<or> has_rgb (b # c # cs)"
    unfolding prefix_rgb 1 by simp
  also have "\<dots> \<longleftrightarrow> has_rgb (a # b # c # cs)"
    unfolding upper_char_cases by simp
  finally show ?case .
qed simp_all

lemma ends_in_jpg_lower: "suffix ''.jpg'' (str_lower f) \<longleftrightarrow> ends_in_jpg f"
proof -
  have "suffix ''.jpg'' (str_lower f) \<longleftrightarrow> prefix ''gpj.'' (map lower_char (rev f))"
    unfolding str_lower_def suffix_to_prefix rev_map by simp
  also have "\<dots> \<longleftrightarrow> (\<exists>e3 e2 e1 d rest. rev f = e3 # e2 # e1 # d # rest \<and>
       lower_char e3 = CHR ''g'' \<and> lower_char e2 = CHR ''p'' \<and> lower_char e1 = CHR ''j'' \<and>
       lower_char d = CHR ''.'')"
  proof (cases "rev f")
    case Nil
    then show ?thesis by simp
  next
    case s1: (Cons e3 s1)
    show ?thesis
    proof (cases s1)
      case Nil
      with s1 show ?thesis by simp
    next
      case s2: (Cons e2 s2)
      show ?thesis
      proof (cases s2)
        case Nil
        with s1 s2 show ?thesis by simp
      next
        case s3: (Cons e1 s3)
        show ?thesis
        proof (cases s3)
          case Nil
          with s1 s2 s3 show ?thesis by simp
        next
          case (Cons d rest)
          with s1 s2 s3 show ?thesis
            by (simp add: eq_commute [of "CHR ''g''"] eq_commute [of "CHR ''p''"]
                eq_commute [of "CHR ''j''"] eq_commute [of "CHR ''.''"])
        qed
      qed
    qed
  qed
  also have "\<dots> \<longleftrightarrow> ends_in_jpg f"
    unfolding ends_in_jpg_def lower_char_cases
    by (auto split: list.splits)
  finally show ?thesis .
qed

lemma rgb_ms_single_filter:
  "rgb_images_rgb_ms_single root files =
     map (path_join root) (filter (\<lambda>f. ends_in_jpg f \<and> (has_d f \<or> has_rgb f)) files)"
  by (simp add: rgb_images_rgb_ms_single_def ends_in_jpg_lower has_d_upper has_rgb_upper)

text \<open>
  Claim C2, as it holds on the code. Take a route folder whose path \<open>glob\<close> reads as it
  stands (no wildcard character in it). In the scanners that look for \<open>*_D.JPG\<close> first
  (the single-route RGB script, the multi-route RGB+MS script and the configuration tool)
  the result is exactly one tier: the visible names ending in \<open>_D.JPG\<close> if there are
  any, otherwise those ending in \<open>D.JPG\<close> if there are any, otherwise those ending in
  \<open>.JPG\<close> followed by those ending in \<open>.jpg\<close>; always in directory order, and with
  the endings compared up to case where the platform ignores case. The multi-route RGB
  script has two tiers instead: the names ending in \<open>.JPG\<close> if there are any, otherwise
  those ending in \<open>.jpg\<close>. The single-route RGB+MS script has no tiers: of the file
  names of a directory it keeps those that end in \<open>.jpg\<close> in any case and hold a \<open>d\<close>
  or the letters \<open>rgb\<close> in any case.
\<close>

theorem find_rgb_files_first_nonempty_tier:
  "(plain_folder_path fp \<longrightarrow>
      find_rgb_files env fp =
        map (path_join fp)
          (if filter (ends_in env ''_D.JPG'') (visible_entries env fp) \<noteq> []
             then filter (ends_in env ''_D.JPG'') (visible_entries env fp)
           else if filter (ends_in env ''D.JPG'') (visible_entries env fp) \<noteq> []
             then filter (ends_in env ''D.JPG'') (visible_entries env fp)
           else filter (ends_in env ''.JPG'') (visible_entries env fp) @
                filter (ends_in env ''.jpg'') (visible_entries env fp)) \<and>
      find_jpg_files_rgb_combined env fp =
        map (path_join fp)
          (if filter (ends_in env ''.JPG'') (visible_entries env fp) \<noteq> []
             then filter (ends_in env ''.JPG'') (visible_entries env fp)
           else filter (ends_in env ''.jpg'') (visible_entries env fp))) \<and>
   rgb_images_rgb_ms_single root files =
     map (path_join root) (filter (\<lambda>f. ends_in_jpg f \<and> (has_d f \<or> has_rgb f)) files)"
proof (intro conjI impI)
  assume fp: "plain_folder_path fp"
  show "find_rgb_files env fp =
        map (path_join fp)
          (if filter (ends_in env ''_D.JPG'') (visible_entries env fp) \<noteq> []
             then filter (ends_in env ''_D.JPG'') (visible_entries env fp)
           else if filter (ends_in env ''D.JPG'') (visible_entries env fp) \<noteq> []
             then filter (ends_in env ''D.JPG'') (visible_entries env fp)
           else filter (ends_in env ''.JPG'') (visible_entries env fp) @
                filter (ends_in env ''.jpg'') (visible_entries env fp))"
    unfolding find_rgb_files_def Let_def by (simp add: glob_tier [OF fp])
  show "find_jpg_files_rgb_combined env fp =
        map (path_join fp)
          (if filter (ends_in env ''.JPG'') (visible_entries env fp) \<noteq> []
             then filter (ends_in env ''.JPG'') (visible_entries env fp)
           else filter (ends_in env ''.jpg'') (visible_entries env fp))"
    unfolding find_jpg_files_rgb_combined_def Let_def by (simp add: glob_tier [OF fp])
next
  show "rgb_images_rgb_ms_single root files =
     map (path_join root) (filter (\<lambda>f. ends_in_jpg f \<and> (has_d f \<or> has_rgb f)) files)"
    by (rule rgb_ms_single_filter)
qed

text \<open>
  A folder with \<open>a_D.JPG\<close>, \<open>b.JPG\<close>, \<open>cD.JPG\<close>, \<open>d.jpg\<close> and a hidden file: the three
  tiers return \<open>a_D.JPG\<close> alone, the two tiers of the multi-route RGB script return the
  three names ending in \<open>.JPG\<close>. Where case is ignored, the third tier lists every JPG
  file twice. The single-route RGB+MS script keeps \<open>rgb_2.JPG\<close> for its letters \<open>rgb\<close>
  and drops \<open>b.JPG\<close>.
\<close>

theorem find_rgb_files_first_nonempty_tier_witness:
  "find_rgb_files (example_env False [(''r'', [''a_D.JPG'', ''b.JPG'', ''cD.JPG'', ''d.jpg'', ''.e_D.JPG''])]) ''r'' =
     [''r/a_D.JPG''] \<and>
   find_jpg_files_rgb_combined
     (example_env False [(''r'', [''a_D.JPG'', ''b.JPG'', ''cD.JPG'', ''d.jpg'', ''.e_D.JPG''])]) ''r'' =
     [''r/a_D.JPG'', ''r/b.JPG'', ''r/cD.JPG''] \<and>
   find_rgb_files (example_env True [(''r'', [''b.jpg'', ''c.JPG''])]) ''r'' =
     [''r/b.jpg'', ''r/c.JPG'', ''r/b.jpg'', ''r/c.JPG''] \<and>
   rgb_images_rgb_ms_single ''r'' [''a_D.JPG'', ''b.JPG'', ''rgb_2.JPG'', ''DJI_1.jpg'', ''D.txt''] =
     [''r/a_D.JPG'', ''r/rgb_2.JPG'', ''r/DJI_1.jpg'']"
proof -
  let ?E = "example_env False [(''r'', [''a_D.JPG'', ''b.JPG'', ''cD.JPG'', ''d.jpg'', ''.e_D.JPG''])]"
  let ?W = "example_env True [(''r'', [''b.jpg'', ''c.JPG''])]"
  have plain: "plain_folder_path ''r''"
    by code_simp
  note posix = find_rgb_files_first_nonempty_tier [of "''r''" ?E "''r''" "[''a_D.JPG'', ''b.JPG'', ''rgb_2.JPG'', ''DJI_1.jpg'', ''D.txt'']"]
  note windows = find_rgb_files_first_nonempty_tier [of "''r''" ?W "''r''" "[''a_D.JPG'', ''b.JPG'', ''rgb_2.JPG'', ''DJI_1.jpg'', ''D.txt'']"]
  have v1: "map (path_join ''r'')
          (if filter (ends_in ?E ''_D.JPG'') (visible_entries ?E ''r'') \<noteq> []
             then filter (ends_in ?E ''_D.JPG'') (visible_entries ?E ''r'')
           else if filter (ends_in ?E ''D.JPG'') (visible_entries ?E ''r'') \<noteq> []
             then filter (ends_in ?E ''D.JPG'') (visible_entries ?E ''r'')
           else filter (ends_in ?E ''.JPG'') (visible_entries ?E ''r'') @
                filter (ends_in ?E ''.jpg'') (visible_entries ?E ''r'')) = [''r/a_D.JPG'']"
    by code_simp
  have v2: "map (path_join ''r'')
          (if filter (ends_in ?E ''.JPG'') (visible_entries ?E ''r'') \<noteq> []
             then filter (ends_in ?E ''.JPG'') (visible_entries ?E ''r'')
           else filter (ends_in ?E ''.jpg'') (visible_entries ?E ''r'')) = [''r/a_D.JPG'', ''r/b.JPG'', ''r/cD.JPG'']"
    by code_simp
  have v3: "map (path_join ''r'')
          (if filter (ends_in ?W ''_D.JPG'') (visible_entries ?W ''r'') \<noteq> []
             then filter (ends_in ?W ''_D.JPG'') (visible_entries ?W ''r'')
           else if filter (ends_in ?W ''D.JPG'') (visible_entries ?W ''r'') \<noteq> []
             then filter (ends_in ?W ''D.JPG'') (visible_entries ?W ''r'')
           else filter (ends_in ?W ''.JPG'') (visible_entries ?W ''r'') @
                filter (ends_in ?W ''.jpg'') (visible_entries ?W ''r'')) = [''r/b.jpg'', ''r/c.JPG'', ''r/b.jpg'', ''r/c.JPG'']"
    by code_simp
  have v4: "map (path_join ''r'') (filter (\<lambda>f. ends_in_jpg f \<and> (has_d f \<or> has_rgb f)) [''a_D.JPG'', ''b.JPG'', ''rgb_2.JPG'', ''DJI_1.jpg'', ''D.txt'']) =
      [''r/a_D.JPG'', ''r/rgb_2.JPG'', ''r/DJI_1.jpg'']"
    by code_simp
  have r1: "find_rgb_files ?E ''r'' = [''r/a_D.JPG'']"
    by (rule trans [OF posix [THEN conjunct1, THEN mp, OF plain, THEN conjunct1] v1])
  have r2: "find_jpg_files_rgb_combined ?E ''r'' = [''r/a_D.JPG'', ''r/b.JPG'', ''r/cD.JPG'']"
    by (rule trans [OF posix [THEN conjunct1, THEN mp, OF plain, THEN conjunct2] v2])
  have r3: "find_rgb_files ?W ''r'' = [''r/b.jpg'', ''r/c.JPG'', ''r/b.jpg'', ''r/c.JPG'']"
    by (rule trans [OF windows [THEN conjunct1, THEN mp, OF plain, THEN conjunct1] v3])
  have r4: "rgb_images_rgb_ms_single ''r'' [''a_D.JPG'', ''b.JPG'', ''rgb_2.JPG'', ''DJI_1.jpg'', ''D.txt''] =
      [''r/a_D.JPG'', ''r/rgb_2.JPG'', ''r/DJI_1.jpg'']"
    by (rule trans [OF posix [THEN conjunct2] v4])
  from r1 r2 r3 r4 show ?thesis
    by (intro conjI)
qed

text \<open>
  In the multi-route RGB script a folder holding \<open>a_D.JPG\<close> and \<open>b.JPG\<close> yields both
  files, although the pattern \<open>*_D.JPG\<close> matches the first and not the second.
\<close>

theorem rgb_combined_tier_counterexample:
  "glob (example_env False [(''r'', [''a_D.JPG'', ''b.JPG''])]) ''r/*_D.JPG'' = [''r/a_D.JPG''] \<and>
   find_jpg_files_rgb_combined (example_env False [(''r'', [''a_D.JPG'', ''b.JPG''])]) ''r'' =
     [''r/a_D.JPG'', ''r/b.JPG'']"
  by code_simp

section \<open>The route grammar\<close>

lemma underscore_not_digit: "\<not> is_digit CHR ''_''"
  by (simp add: is_digit_def)

lemma match_route_sound:
  assumes "match_route folder = Some r"
  shows "route_grammar folder r"
proof -
  define rest where "rest = drop 4 folder"
  define ts where "ts = takeWhile is_digit rest"
  from assms have pre: "prefix ''DJI_'' folder"
    by (auto simp: match_route_def split: if_splits)
  then have folder: "folder = ''DJI_'' @ rest"
    unfolding rest_def by (auto simp: prefix_def)
  from assms pre have len: "12 \<le> length ts" "length ts \<le> 14"
    by (auto simp: match_route_def Let_def ts_def rest_def split: if_splits)
  from assms pre len obtain a b c tl where
    dw: "dropWhile is_digit rest = CHR ''_'' # a # b # c # CHR ''_'' # tl"
    and dig: "is_digit a" "is_digit b" "is_digit c" and r: "r = [a, b, c]"
    by (auto simp: match_route_def Let_def ts_def rest_def split: if_splits list.splits)
  have "rest = ts @ dropWhile is_digit rest"
    by (simp add: ts_def)
  with dw folder have "folder = ''DJI_'' @ ts @ ''_'' @ r @ ''_'' @ tl"
    by (simp add: r)
  moreover have "list_all is_digit ts"
    unfolding ts_def list_all_iff by (auto dest: set_takeWhileD)
  ultimately show ?thesis
    unfolding route_grammar_def using len dig r by auto
qed

lemma match_route_complete:
  assumes "route_grammar folder r"
  shows "match_route folder = Some r"
proof -
  from assms obtain ts tl where
    folder: "folder = ''DJI_'' @ ts @ ''_'' @ r @ ''_'' @ tl"
    and len: "12 \<le> length ts" "length ts \<le> 14" and ts: "list_all is_digit ts"
    and r: "length r = 3" "list_all is_digit r"
    unfolding route_grammar_def by blast
  from r obtain a b c where abc: "r = [a, b, c]"
    by (auto simp: length_Suc_conv numeral_3_eq_3)
  have tw: "takeWhile is_digit (ts @ CHR ''_'' # r @ CHR ''_'' # tl) = ts"
    using ts underscore_not_digit by (simp add: takeWhile_tail list_all_iff)
  have dw: "dropWhile is_digit (ts @ CHR ''_'' # r @ CHR ''_'' # tl) = CHR ''_'' # r @ CHR ''_'' # tl"
    using ts underscore_not_digit by (simp add: dropWhile_append3 list_all_iff)
  show ?thesis
    using len r(2) tw dw unfolding match_route_def folder abc
    by (simp add: Let_def underscore_not_digit)
qed

lemma match_route_grammar: "match_route folder = Some r \<longleftrightarrow> route_grammar folder r"
  using match_route_sound match_route_complete by blast

section \<open>The catalog of the directory scan\<close>

lemma scan_folder_eq:
  "scan_folder env p acc f = acc @ (if catalogued env p f then folder_entry env p f else [])"
  by (simp add: scan_folder_def catalogued_def folder_entry_def Let_def split: option.splits)

lemma foldl_scan_folder:
  "foldl (scan_folder env p) acc es =
     acc @ concat (map (\<lambda>f. if catalogued env p f then folder_entry env p f else []) es)"
proof (induction es arbitrary: acc)
  case Nil
  show ?case by simp
next
  case (Cons e es)
  show ?case
    by (simp add: Cons.IH [of "scan_folder env p acc e"]) (simp add: scan_folder_eq)
qed

lemma kept_folders_concat:
  "kept_folders env p es =
     concat (map (\<lambda>f. if catalogued env p f then folder_entry env p f else []) es)"
  by (simp add: kept_folders_def foldl_scan_folder)

lemma folder_entry_name:
  "map folder_name (folder_entry env p f) = (if match_route f = None then [] else [f])"
  by (simp add: folder_entry_def split: option.splits)

lemma kept_folder_names:
  "map folder_name (kept_folders env p es) = filter (catalogued env p) es"
proof (induction es)
  case Nil
  show ?case by (simp add: kept_folders_concat)
next
  case (Cons e es)
  then show ?case
    by (auto simp: kept_folders_concat folder_entry_name catalogued_def)
qed

lemma kept_folders_iff:
  "r \<in> set (kept_folders env p es) \<longleftrightarrow>
     folder_name r \<in> set es \<and> catalogued env p (folder_name r) \<and>
     folder_entry env p (folder_name r) = [r]"
proof -
  have "r \<in> set (kept_folders env p es) \<longleftrightarrow>
        (\<exists>f\<in>set es. catalogued env p f \<and> r \<in> set (folder_entry env p f))"
    unfolding kept_folders_concat by auto
  also have "\<dots> \<longleftrightarrow> folder_name r \<in> set es \<and> catalogued env p (folder_name r) \<and>
     folder_entry env p (folder_name r) = [r]"
    by (auto simp: folder_entry_def split: option.splits)
  finally show ?thesis .
qed

lemma kept_entry_fields:
  assumes "r \<in> set (kept_folders env p es)"
  shows "match_route (folder_name r) = Some (route_number r)"
    and "folder_path r = path_join p (folder_name r)"
    and "image_files r = find_rgb_files env (path_join p (folder_name r))"
    and "rgb_count r = length (image_files r)"
    and "image_files r \<noteq> []"
    and "os_isdir env (path_join p (folder_name r))"
    and "folder_name r \<in> set es"
proof -
  from assms have mem: "folder_name r \<in> set es" and c: "catalogued env p (folder_name r)"
    and e: "folder_entry env p (folder_name r) = [r]"
    unfolding kept_folders_iff by simp_all
  from c obtain rn where rn: "match_route (folder_name r) = Some rn"
    by (auto simp: catalogued_def)
  from e rn have r: "r = \<lparr>folder_name = folder_name r, folder_path = path_join p (folder_name r),
            route_number = rn,
            rgb_count = length (find_rgb_files env (path_join p (folder_name r))),
            image_files = find_rgb_files env (path_join p (folder_name r))\<rparr>"
    by (simp add: folder_entry_def)
  have f: "route_number r = rn" "folder_path r = path_join p (folder_name r)"
    "image_files r = find_rgb_files env (path_join p (folder_name r))"
    "rgb_count r = length (find_rgb_files env (path_join p (folder_name r)))"
    by (subst r, simp)+
  from f rn show "match_route (folder_name r) = Some (route_number r)" by simp
  from f show "folder_path r = path_join p (folder_name r)" by simp
  from f show "image_files r = find_rgb_files env (path_join p (folder_name r))" by simp
  from f show "rgb_count r = length (image_files r)" by simp
  from f c show "image_files r \<noteq> []" by (simp add: catalogued_def)
  from c show "os_isdir env (path_join p (folder_name r))" by (simp add: catalogued_def)
  from mem show "folder_name r \<in> set es" .
qed




lemma scan_catalog_eq:
  assumes "os_exists env p" "os_listdir env p = Inr es"
  shows "scan_dcim_folders env p = Inr (sort_key route_number (kept_folders env p es))"
  using assms by (simp add: scan_dcim_folders_def kept_folders_def)

lemma ends_in_jpg_tiers:
  "ends_in env ''_D.JPG'' n \<Longrightarrow> ends_in env ''.JPG'' n"
  "ends_in env ''D.JPG'' n \<Longrightarrow> ends_in env ''.JPG'' n"
proof -
  have s1: "suffix (normcase env ''.JPG'') (normcase env ''_D.JPG'')"
    by (simp add: normcase_def str_lower_literals suffix_def)
  have s2: "suffix (normcase env ''.JPG'') (normcase env ''D.JPG'')"
    by (simp add: normcase_def str_lower_literals suffix_def)
  show "ends_in env ''_D.JPG'' n \<Longrightarrow> ends_in env ''.JPG'' n"
    unfolding ends_in_def using s1 by (rule suffix_order.trans)
  show "ends_in env ''D.JPG'' n \<Longrightarrow> ends_in env ''.JPG'' n"
    unfolding ends_in_def using s2 by (rule suffix_order.trans)
qed

lemma find_rgb_files_plain:
  assumes "plain_folder_path fp"
  shows "find_rgb_files env fp =
        map (path_join fp)
          (if filter (ends_in env ''_D.JPG'') (visible_entries env fp) \<noteq> []
             then filter (ends_in env ''_D.JPG'') (visible_entries env fp)
           else if filter (ends_in env ''D.JPG'') (visible_entries env fp) \<noteq> []
             then filter (ends_in env ''D.JPG'') (visible_entries env fp)
           else filter (ends_in env ''.JPG'') (visible_entries env fp) @
                filter (ends_in env ''.jpg'') (visible_entries env fp))"
  unfolding find_rgb_files_def Let_def by (simp add: glob_tier [OF assms])

lemma images_found_iff:
  assumes "plain_folder_path fp"
  shows "find_rgb_files env fp = [] \<longleftrightarrow> image_names env fp = []"
proof
  assume "find_rgb_files env fp = []"
  then have "filter (ends_in env ''.JPG'') (visible_entries env fp) = []"
    "filter (ends_in env ''.jpg'') (visible_entries env fp) = []"
    unfolding find_rgb_files_plain [OF assms] by (simp_all split: if_splits)
  then show "image_names env fp = []"
    unfolding image_names_def filter_empty_conv by blast
next
  assume "image_names env fp = []"
  then have no: "\<forall>n\<in>set (visible_entries env fp). \<not> ends_in env ''.JPG'' n \<and> \<not> ends_in env ''.jpg'' n"
    unfolding image_names_def filter_empty_conv by blast
  then have "filter (ends_in env ''_D.JPG'') (visible_entries env fp) = []"
    "filter (ends_in env ''D.JPG'') (visible_entries env fp) = []"
    "filter (ends_in env ''.JPG'') (visible_entries env fp) = []"
    "filter (ends_in env ''.jpg'') (visible_entries env fp) = []"
    unfolding filter_empty_conv using ends_in_jpg_tiers by blast+
  then show "find_rgb_files env fp = []"
    unfolding find_rgb_files_plain [OF assms] by simp
qed




lemma digit_value_le: "is_digit c \<Longrightarrow> digit_value c \<le> 9"
  by (auto simp: is_digit_def digit_value_def)

lemma digit_value_inj: "is_digit c \<Longrightarrow> is_digit d \<Longrightarrow> digit_value c = digit_value d \<Longrightarrow> c = d"
  by (auto simp: is_digit_def digit_value_def)

lemma digit_less: "is_digit c \<Longrightarrow> is_digit d \<Longrightarrow> c < d \<longleftrightarrow> digit_value c < digit_value d"
  by (auto simp: is_digit_def digit_value_def less_char_def)

lemma digit_step_le:
  fixes x y c f :: nat
  assumes "c \<le> 9" "f \<le> 9"
  shows "(x < y \<or> x = y \<and> c \<le> f) \<longleftrightarrow> 10 * x + c \<le> 10 * y + f"
  using assms by arith

lemma digit_step_eq:
  fixes a b d e :: nat
  assumes "b \<le> 9" "e \<le> 9"
  shows "10 * a + b = 10 * d + e \<longleftrightarrow> a = d \<and> b = e"
proof
  assume h: "10 * a + b = 10 * d + e"
  then have "10 * a + b \<le> 10 * d + e" "10 * d + e \<le> 10 * a + b" by simp_all
  then have "a < d \<or> a = d \<and> b \<le> e" "d < a \<or> d = a \<and> e \<le> b"
    using digit_step_le [OF assms, of a d] digit_step_le [OF assms(2) assms(1), of d a] by blast+
  then show "a = d \<and> b = e" by auto
qed simp

lemma digit_step_less:
  fixes x y c f :: nat
  assumes "c \<le> 9" "f \<le> 9"
  shows "(x < y \<or> x = y \<and> c < f) \<longleftrightarrow> 10 * x + c < 10 * y + f"
  using digit_step_le [OF assms] digit_step_eq [OF assms, of x y] by (auto simp: less_le)

lemma three_digit_order:
  fixes a b c d e f :: nat
  assumes "a \<le> 9" "b \<le> 9" "c \<le> 9" "d \<le> 9" "e \<le> 9" "f \<le> 9"
  shows "(a < d \<or> a = d \<and> (b < e \<or> b = e \<and> (c < f \<or> c = f))) \<longleftrightarrow>
         10 * (10 * a + b) + c \<le> 10 * (10 * d + e) + f"
proof -
  have "10 * (10 * a + b) + c \<le> 10 * (10 * d + e) + f \<longleftrightarrow>
        (10 * a + b < 10 * d + e \<or> 10 * a + b = 10 * d + e \<and> c \<le> f)"
    using digit_step_le [OF assms(3) assms(6), of "10 * a + b" "10 * d + e"] by simp
  also have "\<dots> \<longleftrightarrow> ((a < d \<or> a = d \<and> b < e) \<or> (a = d \<and> b = e) \<and> c \<le> f)"
    using digit_step_less [OF assms(2) assms(5), of a d] digit_step_eq [OF assms(2) assms(5), of a d]
    by simp
  also have "\<dots> \<longleftrightarrow> (a < d \<or> a = d \<and> (b < e \<or> b = e \<and> (c < f \<or> c = f)))"
    by (auto simp: le_less)
  finally show ?thesis by simp
qed

lemma route_order_3:
  assumes "is_digit a" "is_digit b" "is_digit c" "is_digit d" "is_digit e" "is_digit f"
  shows "[a, b, c] \<le> [d, e, f] \<longleftrightarrow> route_value [a, b, c] \<le> route_value [d, e, f]"
proof -
  have eqs: "a = d \<longleftrightarrow> digit_value a = digit_value d" "b = e \<longleftrightarrow> digit_value b = digit_value e"
    "c = f \<longleftrightarrow> digit_value c = digit_value f"
    using assms digit_value_inj by blast+
  have "[a, b, c] \<le> [d, e, f] \<longleftrightarrow> a < d \<or> a = d \<and> (b < e \<or> b = e \<and> (c < f \<or> c = f))"
    by (auto simp: le_less)
  also have "\<dots> \<longleftrightarrow> digit_value a < digit_value d \<or> digit_value a = digit_value d \<and>
       (digit_value b < digit_value e \<or> digit_value b = digit_value e \<and>
         (digit_value c < digit_value f \<or> digit_value c = digit_value f))"
    unfolding digit_less [OF assms(1) assms(4)] digit_less [OF assms(2) assms(5)]
      digit_less [OF assms(3) assms(6)] using eqs by simp
  also have "\<dots> \<longleftrightarrow> route_value [a, b, c] \<le> route_value [d, e, f]"
    unfolding route_value_def
    using three_digit_order [OF assms [THEN digit_value_le]] by simp
  finally show ?thesis .
qed

lemma route_order:
  assumes "match_route f1 = Some r1" "match_route f2 = Some r2"
  shows "r1 \<le> r2 \<longleftrightarrow> route_value r1 \<le> route_value r2"
proof -
  from assms [THEN match_route_sound]
  have l: "length r1 = 3" "length r2 = 3" and d: "list_all is_digit r1" "list_all is_digit r2"
    unfolding route_grammar_def by blast+
  from l obtain a b c d e f where r: "r1 = [a, b, c]" "r2 = [d, e, f]"
    by (auto simp: length_Suc_conv numeral_3_eq_3)
  with d show ?thesis using route_order_3 by simp
qed

lemma scan_missing: "\<not> os_exists env p \<Longrightarrow> scan_dcim_folders env p = Inr []"
  by (simp add: scan_dcim_folders_def)

text \<open>
  What the scan of the single-route RGB script returns for a DCIM directory (whose entries
  have distinct names): a catalog, sorted by route number as a string, of the directories
  whose name matches the route grammar and for which the three tiers returned a file. An
  entry whose name does not match is left out. Where the path of a matching folder holds
  no wildcard character, the folder is listed exactly when it holds a visible name ending
  in \<open>.JPG\<close> or \<open>.jpg\<close>. On the route numbers of a catalog the string order is the
  order of their decimal values. A missing DCIM path gives the empty catalog.
\<close>

lemma scan_dcim_folders_catalog:
  assumes d: "distinct entries" and ex: "os_exists env dcim_path"
    and ls: "os_listdir env dcim_path = Inr entries"
  shows "\<exists>catalog. scan_dcim_folders env dcim_path = Inr catalog \<and>
      sorted (map route_number catalog) \<and>
      (\<forall>r\<in>set catalog. folder_name r \<in> set entries \<and>
           os_isdir env (path_join dcim_path (folder_name r)) \<and>
           route_grammar (folder_name r) (route_number r) \<and>
           image_files r = find_rgb_files env (path_join dcim_path (folder_name r)) \<and>
           image_files r \<noteq> [] \<and> rgb_count r = length (image_files r)) \<and>
      (\<forall>folder. (\<forall>rn. \<not> route_grammar folder rn) \<longrightarrow> folder \<notin> folder_name ` set catalog) \<and>
      (\<forall>folder\<in>set entries. plain_folder_path (path_join dcim_path folder) \<longrightarrow>
           (folder \<in> folder_name ` set catalog \<longleftrightarrow>
              os_isdir env (path_join dcim_path folder) \<and> (\<exists>rn. route_grammar folder rn) \<and>
              image_names env (path_join dcim_path folder) \<noteq> [])) \<and>
      (\<forall>r1\<in>set catalog. \<forall>r2\<in>set catalog.
           route_number r1 \<le> route_number r2 \<longleftrightarrow>
           route_value (route_number r1) \<le> route_value (route_number r2))"
proof (intro exI conjI)
  let ?kept = "kept_folders env dcim_path entries"
  let ?cat = "sort_key route_number ?kept"
  have set_cat: "set ?cat = set ?kept" by simp
  have names: "folder_name ` set ?kept = {f \<in> set entries. catalogued env dcim_path f}"
    using kept_folder_names [of env dcim_path entries]
    by (metis set_filter set_map)
  show "scan_dcim_folders env dcim_path = Inr ?cat"
    by (rule scan_catalog_eq [OF ex ls])
  show "sorted (map route_number ?cat)"
    by (rule sorted_sort_key)
  show "\<forall>r\<in>set ?cat. folder_name r \<in> set entries \<and>
           os_isdir env (path_join dcim_path (folder_name r)) \<and>
           route_grammar (folder_name r) (route_number r) \<and>
           image_files r = find_rgb_files env (path_join dcim_path (folder_name r)) \<and>
           image_files r \<noteq> [] \<and> rgb_count r = length (image_files r)"
  proof (intro ballI conjI)
    fix r
    assume "r \<in> set ?cat"
    then have r: "r \<in> set ?kept" by simp
    show "folder_name r \<in> set entries" by (rule kept_entry_fields(7) [OF r])
    show "os_isdir env (path_join dcim_path (folder_name r))" by (rule kept_entry_fields(6) [OF r])
    show "route_grammar (folder_name r) (route_number r)"
      by (rule match_route_sound [OF kept_entry_fields(1) [OF r]])
    show "image_files r = find_rgb_files env (path_join dcim_path (folder_name r))"
      by (rule kept_entry_fields(3) [OF r])
    show "image_files r \<noteq> []" by (rule kept_entry_fields(5) [OF r])
    show "rgb_count r = length (image_files r)" by (rule kept_entry_fields(4) [OF r])
  qed
  show "\<forall>folder. (\<forall>rn. \<not> route_grammar folder rn) \<longrightarrow> folder \<notin> folder_name ` set ?cat"
    unfolding set_cat names by (auto simp: catalogued_def match_route_grammar)
  show "\<forall>folder\<in>set entries. plain_folder_path (path_join dcim_path folder) \<longrightarrow>
           (folder \<in> folder_name ` set ?cat \<longleftrightarrow>
              os_isdir env (path_join dcim_path folder) \<and> (\<exists>rn. route_grammar folder rn) \<and>
              image_names env (path_join dcim_path folder) \<noteq> [])"
    unfolding set_cat names
    by (auto simp: catalogued_def match_route_grammar images_found_iff)
  show "\<forall>r1\<in>set ?cat. \<forall>r2\<in>set ?cat.
           route_number r1 \<le> route_number r2 \<longleftrightarrow>
           route_value (route_number r1) \<le> route_value (route_number r2)"
  proof (intro ballI)
    fix r1 r2
    assume "r1 \<in> set ?cat" "r2 \<in> set ?cat"
    then have r: "r1 \<in> set ?kept" "r2 \<in> set ?kept" by simp_all
    show "route_number r1 \<le> route_number r2 \<longleftrightarrow>
           route_value (route_number r1) \<le> route_value (route_number r2)"
      by (rule route_order [OF kept_entry_fields(1) [OF r(1)] kept_entry_fields(1) [OF r(2)]])
  qed
qed






text \<open>
  Claim C8 at a folder whose name holds a wildcard character. The DCIM directory \<open>d\<close>
  holds the route folder \<open>DJI_202401010800_002_b\<close> with one image and the empty route
  folder \<open>DJI_202401010800_002_?\<close>. \<open>glob\<close> reads the question mark in the path of the
  second folder as a wildcard and returns the image of the first, so the scan catalogues
  the empty folder, with one image that it does not hold.
\<close>

theorem scan_dcim_folders_wildcard_folder:
  "os_listdir
     (example_env False
       [(''d'', [''DJI_202401010800_002_b'', ''DJI_202401010800_002_?'']),
        (''d/DJI_202401010800_002_b'', [''x_D.JPG'']),
        (''d/DJI_202401010800_002_?'', [])]) ''d/DJI_202401010800_002_?'' = Inr [] \<and>
   scan_dcim_folders
     (example_env False
       [(''d'', [''DJI_202401010800_002_b'', ''DJI_202401010800_002_?'']),
        (''d/DJI_202401010800_002_b'', [''x_D.JPG'']),
        (''d/DJI_202401010800_002_?'', [])]) ''d'' =
   Inr [\<lparr>folder_name = ''DJI_202401010800_002_b'', folder_path = ''d/DJI_202401010800_002_b'',
          route_number = ''002'', rgb_count = 1,
          image_files = [''d/DJI_202401010800_002_b/x_D.JPG'']\<rparr>,
        \<lparr>folder_name = ''DJI_202401010800_002_?'', folder_path = ''d/DJI_202401010800_002_?'',
          route_number = ''002'', rgb_count = 1,
          image_files = [''d/DJI_202401010800_002_b/x_D.JPG'']\<rparr>]"
  by code_simp

section \<open>Grouping multispectral files into capture sets\<close>

lemma group_file_fst:
  "fst (group_file (g, c) f) =
     (case parsed f of None \<Rightarrow> g
      | Some (ts, num, b) \<Rightarrow> add_capture g (capture_key ts num) b f)"
proof (cases "parsed f")
  case None
  then show ?thesis by (simp add: group_file_def parsed_def)
next
  case (Some t)
  obtain ts num b where t: "t = (ts, num, b)" by (cases t)
  have upd: "AList.update k v (g @ [(k, [])]) = AList.update k v g"
    if "map_of g k = None" for k and v :: "(string \<times> string) list"
    using that by (induction g) (auto split: if_splits)
  show ?thesis
    using Some unfolding t
    by (auto simp: group_file_def parsed_def add_capture_def Let_def upd map_add_def)
qed

lemma foldl_group_file_fst:
  "fst (foldl group_file (g, c) fs) =
     foldl (\<lambda>g f. case parsed f of None \<Rightarrow> g
       | Some (ts, num, b) \<Rightarrow> add_capture g (capture_key ts num) b f) g fs"
proof (induction fs arbitrary: g c)
  case Nil
  show ?case by simp
next
  case (Cons f fs)
  obtain g' c' where s: "group_file (g, c) f = (g', c')" by (cases "group_file (g, c) f")
  have g': "g' = (case parsed f of None \<Rightarrow> g
       | Some (ts, num, b) \<Rightarrow> add_capture g (capture_key ts num) b f)"
    using group_file_fst [of g c f] by (simp add: s)
  show ?case
    by (simp add: s Cons.IH) (simp add: g')
qed

lemma map_of_add_capture:
  "map_of (add_capture g k b f) k' =
     (if k' = k then Some (AList.update b f (case map_of g k of None \<Rightarrow> [] | Some bs \<Rightarrow> bs))
      else map_of g k')"
  by (simp add: add_capture_def update_conv')

lemma grouping_inv_empty: "grouping_inv [] []"
  by (simp add: grouping_inv_def)

lemma grouping_inv_skip:
  assumes "grouping_inv files g" "parsed f = None"
  shows "grouping_inv (files @ [f]) g"
  using assms unfolding grouping_inv_def by auto

lemma grouping_inv_add:
  assumes inv: "grouping_inv files g" and p: "parsed f = Some (ts, num, b)"
  shows "grouping_inv (files @ [f]) (add_capture g (capture_key ts num) b f)"
proof -
  let ?k = "capture_key ts num"
  let ?old = "case map_of g ?k of None \<Rightarrow> [] | Some bs \<Rightarrow> bs"
  let ?g' = "add_capture g ?k b f"
  from inv have d: "distinct (map fst g)"
    and stored: "\<And>k bands. map_of g k = Some bands \<Longrightarrow>
        distinct (map fst bands) \<and>
        (\<forall>b f. map_of bands b = Some f \<longrightarrow>
           f \<in> set files \<and> (\<exists>ts num. parsed f = Some (ts, num, b) \<and> k = capture_key ts num))"
    and repr: "\<And>f ts num b. f \<in> set files \<Longrightarrow> parsed f = Some (ts, num, b) \<Longrightarrow>
        (\<exists>bands. map_of g (capture_key ts num) = Some bands \<and> map_of bands b \<noteq> None)"
    unfolding grouping_inv_def by blast+
  have old_distinct: "distinct (map fst ?old)"
    using stored by (cases "map_of g ?k") auto
  have old_stored: "f' \<in> set files \<and> (\<exists>ts' num'. parsed f' = Some (ts', num', b') \<and> ?k = capture_key ts' num')"
    if "map_of ?old b' = Some f'" for b' f'
    using that stored [of ?k] by (cases "map_of g ?k") auto
  have a: "distinct (map fst ?g')"
    unfolding add_capture_def using d by (rule distinct_update)
  have b: "distinct (map fst bands) \<and>
        (\<forall>b' f'. map_of bands b' = Some f' \<longrightarrow>
           f' \<in> set (files @ [f]) \<and>
           (\<exists>ts' num'. parsed f' = Some (ts', num', b') \<and> k = capture_key ts' num'))"
    if m: "map_of ?g' k = Some bands" for k bands
  proof (cases "k = ?k")
    case True
    with m have bands: "bands = AList.update b f ?old"
      by (simp add: map_of_add_capture)
    have "distinct (map fst bands)"
      unfolding bands using old_distinct by (rule distinct_update)
    moreover have "f' \<in> set (files @ [f]) \<and>
           (\<exists>ts' num'. parsed f' = Some (ts', num', b') \<and> k = capture_key ts' num')"
      if "map_of bands b' = Some f'" for b' f'
    proof (cases "b' = b")
      case True
      with that have "f' = f" by (simp add: bands update_conv')
      with p True \<open>k = ?k\<close> show ?thesis by auto
    next
      case False
      with that have "map_of ?old b' = Some f'" by (simp add: bands update_conv')
      from old_stored [OF this] \<open>k = ?k\<close> show ?thesis by auto
    qed
    ultimately show ?thesis by blast
  next
    case False
    with m have "map_of g k = Some bands" by (simp add: map_of_add_capture)
    from stored [OF this] show ?thesis by auto
  qed
  have c: "\<exists>bands. map_of ?g' (capture_key ts0 num0) = Some bands \<and> map_of bands b0 \<noteq> None"
    if mem: "f0 \<in> set (files @ [f])" and p0: "parsed f0 = Some (ts0, num0, b0)" for f0 ts0 num0 b0
  proof (cases "capture_key ts0 num0 = ?k")
    case True
    have "map_of (AList.update b f ?old) b0 \<noteq> None"
    proof (cases "f0 \<in> set files")
      case True
      from repr [OF this p0] \<open>capture_key ts0 num0 = ?k\<close>
      obtain bands where "map_of g ?k = Some bands" "map_of bands b0 \<noteq> None" by auto
      then show ?thesis by (simp add: update_conv')
    next
      case False
      with mem have "f0 = f" by simp
      with p p0 have "b0 = b" by simp
      then show ?thesis by (simp add: update_conv')
    qed
    with True show ?thesis by (simp add: map_of_add_capture)
  next
    case False
    have "f0 \<noteq> f" using False p p0 by auto
    with mem have "f0 \<in> set files" by simp
    from repr [OF this p0] False show ?thesis by (simp add: map_of_add_capture)
  qed
  show ?thesis
    unfolding grouping_inv_def using a b c by blast
qed

lemma grouping_inv_foldl:
  assumes "grouping_inv done g"
  shows "grouping_inv (done @ fs)
     (foldl (\<lambda>g f. case parsed f of None \<Rightarrow> g
       | Some (ts, num, b) \<Rightarrow> add_capture g (capture_key ts num) b f) g fs)"
  using assms
proof (induction fs arbitrary: "done" g)
  case Nil
  then show ?case by simp
next
  case (Cons f fs)
  have step: "grouping_inv (done @ [f]) (case parsed f of None \<Rightarrow> g
       | Some (ts, num, b) \<Rightarrow> add_capture g (capture_key ts num) b f)"
  proof (cases "parsed f")
    case None
    with Cons.prems show ?thesis by (simp add: grouping_inv_skip)
  next
    case (Some t)
    obtain ts num b where "t = (ts, num, b)" by (cases t)
    with Some Cons.prems show ?thesis by (simp add: grouping_inv_add)
  qed
  from Cons.IH [OF step] show ?case by simp
qed

lemma grouping_inv_group_captures: "grouping_inv files (fst (group_captures files))"
  unfolding group_captures_def foldl_group_file_fst
  using grouping_inv_foldl [OF grouping_inv_empty, of files] by simp

lemma parsed_timestamp_length: "parsed f = Some (ts, num, b) \<Longrightarrow> length ts = 14"
  by (auto simp: parsed_def ms_filename_match_def Let_def split: if_splits)

lemma capture_key_inj:
  assumes "length ts = length ts'" "capture_key ts num = capture_key ts' num'"
  shows "ts = ts' \<and> num = num'"
  using assms by (simp add: capture_key_def)

lemma group_bands_on_file:
  assumes inv: "grouping_inv files g" and m: "map_of g (capture_key ts num) = Some bands"
    and len: "length ts = 14"
  shows "fst ` set bands = bands_on_file files ts num"
proof (intro set_eqI iffI)
  fix b assume "b \<in> fst ` set bands"
  then obtain f where "map_of bands b = Some f"
    by (metis domD dom_map_of_conv_image_fst)
  with inv m obtain ts' num' where f: "f \<in> set files" "parsed f = Some (ts', num', b)"
    "capture_key ts num = capture_key ts' num'"
    unfolding grouping_inv_def by blast
  from parsed_timestamp_length [OF f(2)] len capture_key_inj [OF _ f(3)]
  have "ts = ts'" "num = num'" by simp_all
  with f show "b \<in> bands_on_file files ts num"
    unfolding bands_on_file_def by blast
next
  fix b assume "b \<in> bands_on_file files ts num"
  then obtain f where f: "f \<in> set files" "parsed f = Some (ts, num, b)"
    unfolding bands_on_file_def by blast
  with inv obtain bands' where "map_of g (capture_key ts num) = Some bands'" "map_of bands' b \<noteq> None"
    unfolding grouping_inv_def by blast
  with m have "map_of bands b \<noteq> None" by simp
  then show "b \<in> fst ` set bands"
    by (simp add: map_of_eq_None_iff)
qed

lemma required_bands_card: "card (set required_bands) = 4"
  by (simp add: required_bands_def)

lemma is_complete_iff:
  assumes "distinct (map fst bands)"
  shows "is_complete bands \<longleftrightarrow> fst ` set bands = set required_bands"
proof
  assume c: "is_complete bands"
  then have sub: "set required_bands \<subseteq> fst ` set bands"
    by (auto simp: is_complete_def list_all_iff map_of_eq_None_iff)
  from assms have "card (fst ` set bands) = length bands"
    by (metis distinct_card length_map set_map)
  with c have "card (fst ` set bands) = card (set required_bands)"
    by (simp add: is_complete_def required_bands_card)
  with sub show "fst ` set bands = set required_bands"
    by (metis List.finite_set card_subset_eq finite_imageI)
next
  assume e: "fst ` set bands = set required_bands"
  from assms have "card (fst ` set bands) = length bands"
    by (metis distinct_card length_map set_map)
  with e have "length bands = 4" by (simp add: required_bands_card)
  moreover from e have "list_all (\<lambda>band. map_of bands band \<noteq> None) required_bands"
    by (simp add: list_all_iff map_of_eq_None_iff)
  ultimately show "is_complete bands" by (simp add: is_complete_def)
qed

lemma capture_files_complete:
  assumes "is_complete bands"
  shows "\<exists>fs. capture_files bands = fs \<and> length fs = 4 \<and>
           map (map_of bands) required_bands = map Some fs"
proof -
  from assms obtain f1 f2 f3 f4 where
    "map_of bands ''G'' = Some f1" "map_of bands ''NIR'' = Some f2"
    "map_of bands ''R'' = Some f3" "map_of bands ''RE'' = Some f4"
    by (auto simp: is_complete_def required_bands_def)
  then show ?thesis
    by (simp add: capture_files_def required_bands_def List.map_filter_simps)
qed

lemma collect_complete_foldl:
  "foldl (\<lambda>(complete_captures, all_ms_files) (key, bands).
              if is_complete bands
              then (complete_captures + 1, all_ms_files @ capture_files bands)
              else (complete_captures, all_ms_files))
       (n, out) groups =
   (n + length (complete_groups groups),
    out @ concat (map (\<lambda>(key, bands). capture_files bands) (complete_groups groups)))"
  by (induction groups arbitrary: n out) (auto simp: complete_groups_def)

lemma collect_complete_eq:
  "collect_complete groups =
   (length (complete_groups groups),
    concat (map (\<lambda>(key, bands). capture_files bands) (complete_groups groups)))"
  unfolding collect_complete_def collect_complete_foldl by simp

lemma complete_group_files:
  assumes inv: "grouping_inv files g" and mem: "(k, bands) \<in> set (complete_groups g)"
  shows "\<exists>ts num. k = capture_key ts num \<and> length ts = 14 \<and>
           bands_on_file files ts num = set required_bands \<and>
           set (capture_files bands) \<subseteq> set files \<and>
           map parsed (capture_files bands) = map (\<lambda>b. Some (ts, num, b)) required_bands"
proof -
  from mem have in_g: "(k, bands) \<in> set g" and c: "is_complete bands"
    by (auto simp: complete_groups_def)
  from inv have d: "distinct (map fst g)" by (simp add: grouping_inv_def)
  with in_g have m: "map_of g k = Some bands" by simp
  from inv m have stored: "\<And>b f. map_of bands b = Some f \<Longrightarrow>
      f \<in> set files \<and> (\<exists>ts num. parsed f = Some (ts, num, b) \<and> k = capture_key ts num)"
    and db: "distinct (map fst bands)"
    unfolding grouping_inv_def by blast+
  from c obtain f1 f2 f3 f4 where look:
    "map_of bands ''G'' = Some f1" "map_of bands ''NIR'' = Some f2"
    "map_of bands ''R'' = Some f3" "map_of bands ''RE'' = Some f4"
    by (auto simp: is_complete_def required_bands_def)
  then have cf: "capture_files bands = [f1, f2, f3, f4]"
    by (simp add: capture_files_def required_bands_def List.map_filter_simps)
  from stored [OF look(1)] obtain ts num where
    p1: "parsed f1 = Some (ts, num, ''G'')" and k: "k = capture_key ts num" by blast
  have len: "length ts = 14" by (rule parsed_timestamp_length [OF p1])
  have same: "parsed f = Some (ts, num, b)" if "map_of bands b = Some f" for b f
  proof -
    from stored [OF that] obtain ts' num' where
      p: "parsed f = Some (ts', num', b)" and k': "k = capture_key ts' num'" by blast
    from parsed_timestamp_length [OF p] len have "length ts = length ts'" by simp
    moreover from k k' have "capture_key ts num = capture_key ts' num'" by simp
    ultimately have "ts = ts' \<and> num = num'" by (rule capture_key_inj)
    then have "ts = ts'" "num = num'" by simp_all
    with p show ?thesis by simp
  qed
  have "bands_on_file files ts num = set required_bands"
    using group_bands_on_file [OF inv m [unfolded k] len] is_complete_iff [OF db] c by simp
  moreover have "set (capture_files bands) \<subseteq> set files"
    unfolding cf using stored look by auto
  moreover have "map parsed (capture_files bands) = map (\<lambda>b. Some (ts, num, b)) required_bands"
    unfolding cf using look [THEN same] by (simp add: required_bands_def)
  ultimately show ?thesis using k len by blast
qed

lemma concat_uniform_length:
  assumes "\<forall>xs\<in>set xss. length xs = m"
  shows "length (concat xss) = m * length xss"
  using assms by (induction xss) auto

lemma concat_uniform_block:
  assumes "\<forall>xs\<in>set xss. length xs = m" "i < length xss"
  shows "take m (drop (m * i) (concat xss)) = xss ! i"
  using assms
proof (induction xss arbitrary: i)
  case Nil
  then show ?case by simp
next
  case (Cons xs xss)
  show ?case
  proof (cases i)
    case 0
    with Cons.prems show ?thesis by simp
  next
    case (Suc j)
    with Cons.prems have "take m (drop (m * j) (concat xss)) = xss ! j"
      by (intro Cons.IH) auto
    moreover from Cons.prems have "length xs = m" by simp
    ultimately show ?thesis using Suc by simp
  qed
qed

lemma complete_keys_distinct:
  assumes "grouping_inv files g"
  shows "distinct (map fst (complete_groups g))"
  using assms unfolding grouping_inv_def complete_groups_def
  by (simp add: distinct_map_filter)

lemma complete_captures_card:
  assumes inv: "grouping_inv files g"
  shows "length (complete_groups g) =
     card {(ts, num). bands_on_file files ts num = set required_bands}"
proof -
  let ?S = "{(ts, num). bands_on_file files ts num = set required_bands}"
  let ?key = "\<lambda>(ts, num). capture_key ts num"
  have len14: "length ts = 14" if "(ts, num) \<in> ?S" for ts num
  proof -
    from that have "''G'' \<in> bands_on_file files ts num"
      by (simp add: required_bands_def)
    then show ?thesis
      unfolding bands_on_file_def using parsed_timestamp_length by blast
  qed
  have inj: "inj_on ?key ?S"
  proof (rule inj_onI)
    fix x y assume x: "x \<in> ?S" and y: "y \<in> ?S" and e: "?key x = ?key y"
    obtain ts num ts' num' where xy: "x = (ts, num)" "y = (ts', num')"
      by (cases x, cases y)
    from x y len14 have "length ts = length ts'" unfolding xy by simp
    moreover from e have "capture_key ts num = capture_key ts' num'" unfolding xy by simp
    ultimately have "ts = ts' \<and> num = num'" by (rule capture_key_inj)
    then show "x = y" unfolding xy by simp
  qed
  have img: "?key ` ?S = fst ` set (complete_groups g)"
  proof (intro set_eqI iffI)
    fix k assume "k \<in> ?key ` ?S"
    then obtain ts num where k: "k = capture_key ts num" and s: "(ts, num) \<in> ?S" by auto
    from s have all: "bands_on_file files ts num = set required_bands" by simp
    then have "''G'' \<in> bands_on_file files ts num" by (simp add: required_bands_def)
    then obtain f where f: "f \<in> set files" "parsed f = Some (ts, num, ''G'')"
      unfolding bands_on_file_def by blast
    with inv obtain bands where m: "map_of g (capture_key ts num) = Some bands"
      unfolding grouping_inv_def by blast
    from inv m have db: "distinct (map fst bands)"
      unfolding grouping_inv_def by blast
    from group_bands_on_file [OF inv m len14 [OF s]] all is_complete_iff [OF db]
    have "is_complete bands" by simp
    moreover from m have "(capture_key ts num, bands) \<in> set g" by (rule map_of_SomeD)
    ultimately have "(k, bands) \<in> set (complete_groups g)"
      by (simp add: complete_groups_def k)
    then show "k \<in> fst ` set (complete_groups g)" by force
  next
    fix k assume "k \<in> fst ` set (complete_groups g)"
    then obtain bands where "(k, bands) \<in> set (complete_groups g)" by auto
    from complete_group_files [OF inv this] obtain ts num where
      "k = capture_key ts num" "bands_on_file files ts num = set required_bands" by blast
    then show "k \<in> ?key ` ?S" by force
  qed
  have "length (complete_groups g) = card (fst ` set (complete_groups g))"
    using complete_keys_distinct [OF inv] by (metis distinct_card length_map set_map)
  also have "\<dots> = card (?key ` ?S)" by (simp add: img)
  also have "\<dots> = card ?S" using inj by (rule card_image)
  finally show ?thesis .
qed

lemma emitted_file:
  assumes inv: "grouping_inv files g"
    and f: "f \<in> set (concat (map (\<lambda>(key, bands). capture_files bands) (complete_groups g)))"
  shows "f \<in> set files \<and>
     (\<exists>ts num band. parsed f = Some (ts, num, band) \<and> band \<in> set required_bands \<and>
        bands_on_file files ts num = set required_bands)"
proof -
  from f obtain k bands where mem: "(k, bands) \<in> set (complete_groups g)"
    and fm: "f \<in> set (capture_files bands)" by auto
  from complete_group_files [OF inv mem] obtain ts num where
    all: "bands_on_file files ts num = set required_bands"
    and sub: "set (capture_files bands) \<subseteq> set files"
    and p: "map parsed (capture_files bands) = map (\<lambda>b. Some (ts, num, b)) required_bands"
    by blast
  from fm have "parsed f \<in> set (map parsed (capture_files bands))" by simp
  then have "parsed f \<in> set (map (\<lambda>b. Some (ts, num, b)) required_bands)"
    unfolding p .
  then obtain band where "band \<in> set required_bands" "parsed f = Some (ts, num, band)" by auto
  with all sub fm show ?thesis by blast
qed

lemma emitted_block:
  assumes inv: "grouping_inv files g" and i: "i < length (complete_groups g)"
  shows "\<exists>ts num. map parsed (take 4 (drop (4 * i)
            (concat (map (\<lambda>(key, bands). capture_files bands) (complete_groups g))))) =
          map (\<lambda>b. Some (ts, num, b)) required_bands"
proof -
  let ?xss = "map (\<lambda>(key, bands). capture_files bands) (complete_groups g)"
  have len: "\<forall>xs\<in>set ?xss. length xs = 4"
  proof
    fix xs assume "xs \<in> set ?xss"
    then obtain k bands where "(k, bands) \<in> set (complete_groups g)" "xs = capture_files bands"
      by auto
    then show "length xs = 4"
      using capture_files_complete [of bands] by (auto simp: complete_groups_def)
  qed
  from i have i': "i < length ?xss" by simp
  obtain k bands where kb: "complete_groups g ! i = (k, bands)"
    by (cases "complete_groups g ! i")
  with i have mem: "(k, bands) \<in> set (complete_groups g)"
    by (metis nth_mem)
  have "take 4 (drop (4 * i) (concat ?xss)) = ?xss ! i"
    using len i' by (rule concat_uniform_block)
  also have "\<dots> = capture_files bands" using i kb by simp
  finally have blk: "take 4 (drop (4 * i) (concat ?xss)) = capture_files bands" .
  from complete_group_files [OF inv mem] show ?thesis
    unfolding blk by blast
qed

lemma emitted_length:
  "length (concat (map (\<lambda>(key, bands). capture_files bands) (complete_groups g))) =
     4 * length (complete_groups g)"
proof -
  let ?xss = "map (\<lambda>(key, bands). capture_files bands) (complete_groups g)"
  have "\<forall>xs\<in>set ?xss. length xs = 4"
  proof
    fix xs assume "xs \<in> set ?xss"
    then obtain k bands where "(k, bands) \<in> set (complete_groups g)" "xs = capture_files bands"
      by auto
    then show "length xs = 4"
      using capture_files_complete [of bands] by (auto simp: complete_groups_def)
  qed
  then have "length (concat ?xss) = 4 * length ?xss" by (rule concat_uniform_length)
  then show ?thesis by simp
qed

lemma complete_capture_emitted:
  assumes inv: "grouping_inv files g"
    and all: "bands_on_file files ts num = set required_bands"
  shows "\<exists>i<length (complete_groups g).
           map parsed (take 4 (drop (4 * i)
             (concat (map (\<lambda>(key, bands). capture_files bands) (complete_groups g))))) =
           map (\<lambda>b. Some (ts, num, b)) required_bands"
proof -
  let ?xss = "map (\<lambda>(key, bands). capture_files bands) (complete_groups g)"
  from all have "''G'' \<in> bands_on_file files ts num" by (simp add: required_bands_def)
  then obtain f where f: "f \<in> set files" "parsed f = Some (ts, num, ''G'')"
    unfolding bands_on_file_def by blast
  have len: "length ts = 14" by (rule parsed_timestamp_length [OF f(2)])
  from inv f obtain bands where m: "map_of g (capture_key ts num) = Some bands"
    unfolding grouping_inv_def by blast
  from inv m have db: "distinct (map fst bands)"
    unfolding grouping_inv_def by blast
  from group_bands_on_file [OF inv m len] all is_complete_iff [OF db]
  have "is_complete bands" by simp
  moreover from m have "(capture_key ts num, bands) \<in> set g" by (rule map_of_SomeD)
  ultimately have mem: "(capture_key ts num, bands) \<in> set (complete_groups g)"
    by (simp add: complete_groups_def)
  then obtain i where i: "i < length (complete_groups g)"
    and nth: "complete_groups g ! i = (capture_key ts num, bands)"
    by (auto simp: in_set_conv_nth)
  have uni: "\<forall>xs\<in>set ?xss. length xs = 4"
  proof
    fix xs assume "xs \<in> set ?xss"
    then obtain k bs where "(k, bs) \<in> set (complete_groups g)" "xs = capture_files bs"
      by auto
    then show "length xs = 4"
      using capture_files_complete [of bs] by (auto simp: complete_groups_def)
  qed
  from i have i': "i < length ?xss" by simp
  have "take 4 (drop (4 * i) (concat ?xss)) = ?xss ! i"
    using uni i' by (rule concat_uniform_block)
  also have "\<dots> = capture_files bands" using i nth by simp
  finally have blk: "take 4 (drop (4 * i) (concat ?xss)) = capture_files bands" .
  from complete_group_files [OF inv mem] obtain ts' num' where
    k: "capture_key ts num = capture_key ts' num'" and len': "length ts' = 14"
    and p: "map parsed (capture_files bands) = map (\<lambda>b. Some (ts', num', b)) required_bands"
    by blast
  from len len' have "length ts = length ts'" by simp
  then have "ts = ts' \<and> num = num'" using k by (rule capture_key_inj)
  with p have "map parsed (capture_files bands) = map (\<lambda>b. Some (ts, num, b)) required_bands"
    by simp
  with i blk show ?thesis by auto
qed

text \<open>
  The grouping and collecting loops of the multispectral scanner, for any list of file
  paths. Every emitted file is one of the given files, its name parses to a timestamp, a
  sequence number and one of the bands G, NIR, R, RE, and all four bands (and no other) are
  on file for that capture. A capture for which one of the four bands is missing, such as
  one with three bands, contributes no emitted file, and \<open>complete_captures\<close> is the
  number of captures whose bands on file are exactly the four. The emitted list consists
  of \<open>complete_captures\<close> blocks of four files; each block belongs to one capture and is in
  the order G, NIR, R, RE, and every capture whose bands on file are exactly the four has
  its block.
\<close>

lemma ms_capture_sets:
  assumes g: "group_captures files = (groups, counts)"
    and c: "collect_complete groups = (complete_captures, all_ms_files)"
  shows "(\<forall>f\<in>set all_ms_files. f \<in> set files \<and>
            (\<exists>ts num band. parsed f = Some (ts, num, band) \<and> band \<in> set required_bands \<and>
               bands_on_file files ts num = set required_bands)) \<and>
         (\<forall>ts num. \<not> set required_bands \<subseteq> bands_on_file files ts num \<longrightarrow>
            (\<forall>f\<in>set all_ms_files. \<forall>band. parsed f \<noteq> Some (ts, num, band))) \<and>
         complete_captures = card {(ts, num). bands_on_file files ts num = set required_bands} \<and>
         length all_ms_files = 4 * complete_captures \<and>
         (\<forall>i<complete_captures. \<exists>ts num.
            map parsed (take 4 (drop (4 * i) all_ms_files)) =
            map (\<lambda>band. Some (ts, num, band)) required_bands) \<and>
         (\<forall>ts num. bands_on_file files ts num = set required_bands \<longrightarrow>
            (\<exists>i<complete_captures.
               map parsed (take 4 (drop (4 * i) all_ms_files)) =
               map (\<lambda>band. Some (ts, num, band)) required_bands))"
proof -
  from g have inv: "grouping_inv files groups"
    using grouping_inv_group_captures [of files] by simp
  from c have n: "complete_captures = length (complete_groups groups)"
    and out: "all_ms_files =
      concat (map (\<lambda>(key, bands). capture_files bands) (complete_groups groups))"
    by (simp_all add: collect_complete_eq)
  have 1: "\<forall>f\<in>set all_ms_files. f \<in> set files \<and>
            (\<exists>ts num band. parsed f = Some (ts, num, band) \<and> band \<in> set required_bands \<and>
               bands_on_file files ts num = set required_bands)"
    unfolding out using emitted_file [OF inv] by blast
  have 2: "\<forall>ts num. \<not> set required_bands \<subseteq> bands_on_file files ts num \<longrightarrow>
            (\<forall>f\<in>set all_ms_files. \<forall>band. parsed f \<noteq> Some (ts, num, band))"
  proof (intro allI impI ballI notI)
    fix ts num f band
    assume miss: "\<not> set required_bands \<subseteq> bands_on_file files ts num"
      and f: "f \<in> set all_ms_files" and p: "parsed f = Some (ts, num, band)"
    from 1 f obtain ts' num' band' where "parsed f = Some (ts', num', band')"
      "bands_on_file files ts' num' = set required_bands" by blast
    with p miss show False by simp
  qed
  have 3: "complete_captures = card {(ts, num). bands_on_file files ts num = set required_bands}"
    unfolding n by (rule complete_captures_card [OF inv])
  have 4: "length all_ms_files = 4 * complete_captures"
    unfolding n out by (rule emitted_length)
  have 5: "\<forall>i<complete_captures. \<exists>ts num.
            map parsed (take 4 (drop (4 * i) all_ms_files)) =
            map (\<lambda>band. Some (ts, num, band)) required_bands"
    unfolding n out using emitted_block [OF inv] by blast
  have 6: "\<forall>ts num. bands_on_file files ts num = set required_bands \<longrightarrow>
            (\<exists>i<complete_captures.
               map parsed (take 4 (drop (4 * i) all_ms_files)) =
               map (\<lambda>band. Some (ts, num, band)) required_bands)"
    unfolding n out using complete_capture_emitted [OF inv] by blast
  from 1 2 3 4 5 6 show ?thesis
    by (intro conjI)
qed

text \<open>
  On a file system that tells upper case from lower case, a route folder with eight TIFF
  files, two captures with four bands each, is catalogued with \<open>complete_sets = 2\<close> and
  \<open>ms_files_count = 8\<close>, and a folder with three bands of one capture is not catalogued.
\<close>

lemma scan_dcim_folders_ms_example:
  "scan_dcim_folders_ms
     (example_env False
        [(''d'', [''DJI_202401010800_001_x'']),
         (''d/DJI_202401010800_001_x'',
           [''DJI_20240101080000_0001_MS_G.TIF'', ''DJI_20240101080000_0001_MS_NIR.TIF'',
            ''DJI_20240101080000_0001_MS_R.TIF'', ''DJI_20240101080000_0001_MS_RE.TIF'',
            ''DJI_20240101080003_0002_MS_G.TIF'', ''DJI_20240101080003_0002_MS_NIR.TIF'',
            ''DJI_20240101080003_0002_MS_R.TIF'', ''DJI_20240101080003_0002_MS_RE.TIF''])]) ''d'' =
   Inr [\<lparr>ms_folder_name = ''DJI_202401010800_001_x'',
          ms_folder_path = ''d/DJI_202401010800_001_x'', ms_route_number = ''001'',
          ms_captures = 2, ms_files_count = 8,
          band_counts = [(''G'', 2), (''NIR'', 2), (''R'', 2), (''RE'', 2)],
          ms_image_files =
            [''d/DJI_202401010800_001_x/DJI_20240101080000_0001_MS_G.TIF'',
             ''d/DJI_202401010800_001_x/DJI_20240101080000_0001_MS_NIR.TIF'',
             ''d/DJI_202401010800_001_x/DJI_20240101080000_0001_MS_R.TIF'',
             ''d/DJI_202401010800_001_x/DJI_20240101080000_0001_MS_RE.TIF'',
             ''d/DJI_202401010800_001_x/DJI_20240101080003_0002_MS_G.TIF'',
             ''d/DJI_202401010800_001_x/DJI_20240101080003_0002_MS_NIR.TIF'',
             ''d/DJI_202401010800_001_x/DJI_20240101080003_0002_MS_R.TIF'',
             ''d/DJI_202401010800_001_x/DJI_20240101080003_0002_MS_RE.TIF''],
          complete_sets = 2\<rparr>] \<and>
   scan_dcim_folders_ms
     (example_env False
        [(''d'', [''DJI_202401010800_001_x'']),
         (''d/DJI_202401010800_001_x'',
           [''DJI_20240101080000_0001_MS_G.TIF'', ''DJI_20240101080000_0001_MS_NIR.TIF'',
            ''DJI_20240101080000_0001_MS_R.TIF''])]) ''d'' = Inr []"
  by code_simp

text \<open>
  Claim C3 where \<open>os.path.normcase\<close> lower-cases names, as on Windows. The two patterns
  \<open>*_MS_*.TIF\<close> and \<open>*_MS_*.tif\<close> then match the same files, \<open>ms_files\<close> holds every path
  twice, and the same route folder with eight TIFF files is catalogued with
  \<open>complete_sets = 2\<close> and \<open>ms_files_count = 16\<close>; the band counts are doubled as well. The
  emitted files are the eight files, once each.
\<close>

theorem scan_dcim_folders_ms_counts_twice:
  "scan_dcim_folders_ms
     (example_env True
        [(''d'', [''DJI_202401010800_001_x'']),
         (''d/DJI_202401010800_001_x'',
           [''DJI_20240101080000_0001_MS_G.TIF'', ''DJI_20240101080000_0001_MS_NIR.TIF'',
            ''DJI_20240101080000_0001_MS_R.TIF'', ''DJI_20240101080000_0001_MS_RE.TIF'',
            ''DJI_20240101080003_0002_MS_G.TIF'', ''DJI_20240101080003_0002_MS_NIR.TIF'',
            ''DJI_20240101080003_0002_MS_R.TIF'', ''DJI_20240101080003_0002_MS_RE.TIF''])]) ''d'' =
   Inr [\<lparr>ms_folder_name = ''DJI_202401010800_001_x'',
          ms_folder_path = ''d/DJI_202401010800_001_x'', ms_route_number = ''001'',
          ms_captures = 2, ms_files_count = 16,
          band_counts = [(''G'', 4), (''NIR'', 4), (''R'', 4), (''RE'', 4)],
          ms_image_files =
            [''d/DJI_202401010800_001_x/DJI_20240101080000_0001_MS_G.TIF'',
             ''d/DJI_202401010800_001_x/DJI_20240101080000_0001_MS_NIR.TIF'',
             ''d/DJI_202401010800_001_x/DJI_20240101080000_0001_MS_R.TIF'',
             ''d/DJI_202401010800_001_x/DJI_20240101080000_0001_MS_RE.TIF'',
             ''d/DJI_202401010800_001_x/DJI_20240101080003_0002_MS_G.TIF'',
             ''d/DJI_202401010800_001_x/DJI_20240101080003_0002_MS_NIR.TIF'',
             ''d/DJI_202401010800_001_x/DJI_20240101080003_0002_MS_R.TIF'',
             ''d/DJI_202401010800_001_x/DJI_20240101080003_0002_MS_RE.TIF''],
          complete_sets = 2\<rparr>]"
  by code_simp

text \<open>
  The overwritten \<open>pattern\<close>: of two route folders with one complete capture each, only the
  one that \<open>os.listdir\<close> returns first is catalogued, since the name of the second is
  matched against a glob path.
\<close>

lemma scan_dcim_folders_ms_second_route:
  "scan_dcim_folders_ms
     (example_env False
       [(''d'', [''DJI_202401010800_001_x'', ''DJI_202401010900_002_y'']),
        (''d/DJI_202401010800_001_x'',
          [''DJI_20240101080000_0001_MS_G.TIF'', ''DJI_20240101080000_0001_MS_NIR.TIF'',
           ''DJI_20240101080000_0001_MS_R.TIF'', ''DJI_20240101080000_0001_MS_RE.TIF'']),
        (''d/DJI_202401010900_002_y'',
          [''DJI_20240101090000_0001_MS_G.TIF'', ''DJI_20240101090000_0001_MS_NIR.TIF'',
           ''DJI_20240101090000_0001_MS_R.TIF'', ''DJI_20240101090000_0001_MS_RE.TIF''])]) ''d'' =
   Inr [\<lparr>ms_folder_name = ''DJI_202401010800_001_x'',
         ms_folder_path = ''d/DJI_202401010800_001_x'',
         ms_route_number = ''001'', ms_captures = 1, ms_files_count = 4,
         band_counts = [(''G'', 1), (''NIR'', 1), (''R'', 1), (''RE'', 1)],
         ms_image_files =
           [''d/DJI_202401010800_001_x/DJI_20240101080000_0001_MS_G.TIF'',
            ''d/DJI_202401010800_001_x/DJI_20240101080000_0001_MS_NIR.TIF'',
            ''d/DJI_202401010800_001_x/DJI_20240101080000_0001_MS_R.TIF'',
            ''d/DJI_202401010800_001_x/DJI_20240101080000_0001_MS_RE.TIF''],
         complete_sets = 1\<rparr>]"
  by code_simp

section \<open>Versioned project paths never reuse a non-empty folder\<close>

lemma str_nat_nonempty: "str_nat n \<noteq> []"
  by (subst str_nat.simps) simp

lemma digit_char_inj: "a < 10 \<Longrightarrow> b < 10 \<Longrightarrow> digit_char a = digit_char b \<Longrightarrow> a = b"
proof -
  assume a: "a < 10" and b: "b < 10" and e: "digit_char a = digit_char b"
  from e have "of_char (digit_char a) = (of_char (digit_char b) :: nat)" by simp
  with a b show "a = b" by (simp add: digit_char_def)
qed

lemma str_nat_inj: "str_nat n = str_nat m \<Longrightarrow> n = m"
proof (induction n arbitrary: m rule: str_nat.induct)
  case (1 n)
  show ?case
  proof (cases "n < 10")
    case True
    with "1.prems" have sm: "str_nat m = [digit_char n]" by (subst (asm) str_nat.simps) simp
    have "m < 10"
    proof (rule ccontr)
      assume "\<not> m < 10"
      with sm have "str_nat (m div 10) @ [digit_char (m mod 10)] = [digit_char n]"
        by (subst (asm) str_nat.simps) simp
      then show False using str_nat_nonempty by simp
    qed
    with sm have "[digit_char m] = [digit_char n]" by (subst (asm) str_nat.simps) simp
    with True \<open>m < 10\<close> show ?thesis using digit_char_inj by auto
  next
    case False
    with "1.prems" have sm: "str_nat m = str_nat (n div 10) @ [digit_char (n mod 10)]"
      by (subst (asm) str_nat.simps) simp
    have "\<not> m < 10"
    proof
      assume "m < 10"
      with sm have "[digit_char m] = str_nat (n div 10) @ [digit_char (n mod 10)]"
        by (subst (asm) str_nat.simps) simp
      then show False using str_nat_nonempty [of "n div 10"] by auto
    qed
    with sm have "str_nat (m div 10) @ [digit_char (m mod 10)] =
        str_nat (n div 10) @ [digit_char (n mod 10)]"
      by (subst (asm) str_nat.simps) simp
    then have e: "str_nat (n div 10) = str_nat (m div 10)"
      "digit_char (n mod 10) = digit_char (m mod 10)" by simp_all
    from "1.IH" [OF False e(1)] have "n div 10 = m div 10" .
    moreover from e(2) have "n mod 10 = m mod 10" by (intro digit_char_inj) simp_all
    ultimately show ?thesis by (metis div_mult_mod_eq)
  qed
qed

lemma folder_for_inj: "folder_for base u = folder_for base v \<Longrightarrow> u = v"
  by (auto simp: folder_for_def str_nat_inj split: if_splits)

lemma free_version_exists: "\<exists>v\<ge>v0. map_of outdir (folder_for base v) = None"
proof (rule ccontr)
  assume "\<not> ?thesis"
  then have "\<forall>v\<ge>v0. folder_for base v \<in> fst ` set outdir"
    by (auto simp: map_of_eq_None_iff)
  then have "folder_for base ` {v0..} \<subseteq> fst ` set outdir" by auto
  then have "finite (folder_for base ` {v0..})"
    by (rule finite_subset) simp
  moreover have "inj_on (folder_for base) {v0..}"
    by (rule inj_onI) (rule folder_for_inj)
  ultimately have "finite {v0..}" by (rule finite_imageD)
  then show False by (simp add: infinite_Ici)
qed

lemma stop_version_exists:
  "\<exists>s\<ge>v0. \<not> nonempty_folder outdir (folder_for base s) \<and>
      (\<forall>u. v0 \<le> u \<and> u < s \<longrightarrow> nonempty_folder outdir (folder_for base u))"
proof -
  let ?P = "\<lambda>u. v0 \<le> u \<and> \<not> nonempty_folder outdir (folder_for base u)"
  from free_version_exists [of v0 outdir base] have ex: "\<exists>u. ?P u"
    by (auto simp: nonempty_folder_def)
  define s where "s = (LEAST u. ?P u)"
  from ex have "?P s" unfolding s_def by (rule LeastI_ex)
  moreover have "nonempty_folder outdir (folder_for base u)" if "v0 \<le> u" "u < s" for u
  proof (rule ccontr)
    assume "\<not> nonempty_folder outdir (folder_for base u)"
    with that have "?P u" by simp
    then have "s \<le> u" unfolding s_def by (rule Least_le)
    with that show False by simp
  qed
  ultimately show ?thesis by blast
qed

lemma version_loop_value:
  assumes "1 \<le> v0" "v0 \<le> s"
    and "\<forall>u. v0 \<le> u \<and> u < s \<longrightarrow> nonempty_folder outdir (folder_for base u)"
    and "\<not> nonempty_folder outdir (folder_for base s)"
  shows "version_loop outdir base v0 (folder_for base v0) (file_for base v0) =
     Some (if map_of outdir (folder_for base s) = Some File then Inl NotADirectoryError
           else Inr (s, folder_for base s, file_for base s))"
  using assms
proof (induction "s - v0" arbitrary: v0)
  case 0
  then have "v0 = s" by simp
  with "0.prems"(4) show ?case
    by (subst version_loop.simps)
       (auto simp: nonempty_folder_def split: option.splits dir_entry.splits)
next
  case (Suc d)
  then have lt: "v0 < s" by simp
  with Suc.prems(3) have "nonempty_folder outdir (folder_for base v0)" by simp
  then obtain names where m: "map_of outdir (folder_for base v0) = Some (Folder names)"
    and ne: "names \<noteq> []"
    by (auto simp: nonempty_folder_def split: option.splits dir_entry.splits)
  from Suc.prems(1) have next_folder: "base @ ''_v'' @ str_nat (v0 + 1) = folder_for base (v0 + 1)"
    by (simp add: folder_for_def)
  then have next_file: "base @ ''_v'' @ str_nat (v0 + 1) @ ''.psx'' = file_for base (v0 + 1)"
    by (simp add: file_for_def)
  have IH: "version_loop outdir base (v0 + 1) (folder_for base (v0 + 1)) (file_for base (v0 + 1)) =
     Some (if map_of outdir (folder_for base s) = Some File then Inl NotADirectoryError
           else Inr (s, folder_for base s, file_for base s))"
    using Suc.hyps(2) lt Suc.prems(3,4) by (intro Suc.hyps(1)) auto
  have step: "version_loop outdir base v0 (folder_for base v0) (file_for base v0) =
      version_loop outdir base (v0 + 1) (base @ ''_v'' @ str_nat (v0 + 1))
        (base @ ''_v'' @ str_nat (v0 + 1) @ ''.psx'')"
    by (subst version_loop.simps) (simp add: m ne)
  show ?case
    unfolding step next_folder next_file by (rule IH)
qed

lemma versioned_project_value:
  assumes "1 \<le> s"
    and "\<forall>u. 1 \<le> u \<and> u < s \<longrightarrow> nonempty_folder outdir (folder_for base u)"
    and "\<not> nonempty_folder outdir (folder_for base s)"
  shows "versioned_project outdir output_base base =
     Some (if map_of outdir (folder_for base s) = Some File then Inl NotADirectoryError
           else Inr ((path_join output_base (folder_for base s),
                      path_join (path_join output_base (folder_for base s)) (file_for base s)),
                     (if map_of outdir (folder_for base s) = None
                      then outdir @ [(folder_for base s, Folder [])] else outdir)))"
proof -
  have start: "folder_for base 1 = base" "file_for base 1 = base @ ''.psx''"
    by (simp_all add: folder_for_def file_for_def)
  have loop: "version_loop outdir base 1 base (base @ ''.psx'') =
     Some (if map_of outdir (folder_for base s) = Some File then Inl NotADirectoryError
           else Inr (s, folder_for base s, file_for base s))"
    using version_loop_value [OF le_refl assms(1) assms(2) assms(3)]
    unfolding start .
  show ?thesis
    unfolding versioned_project_def loop
    by (auto simp: makedirs_def Let_def split: option.splits dir_entry.splits)
qed

lemma versioned_project_rerun:
  assumes r: "versioned_project outdir output_base base = Some (Inr (paths, outdir'))"
  shows "versioned_project outdir' output_base base = Some (Inr (paths, outdir'))"
proof -
  from stop_version_exists [of 1 outdir base] obtain s where s: "1 \<le> s"
    and stop: "\<not> nonempty_folder outdir (folder_for base s)"
    and before: "\<forall>u. 1 \<le> u \<and> u < s \<longrightarrow> nonempty_folder outdir (folder_for base u)"
    by blast
  let ?name = "folder_for base s"
  from r versioned_project_value [OF s before stop, of output_base]
  have nofile: "map_of outdir ?name \<noteq> Some File"
    and paths: "paths = (path_join output_base ?name,
                      path_join (path_join output_base ?name) (file_for base s))"
    and out': "outdir' = (if map_of outdir ?name = None
                      then outdir @ [(?name, Folder [])] else outdir)"
    by (auto split: if_splits)
  have look: "map_of outdir' k = (case map_of outdir k of
       None \<Rightarrow> (if k = ?name then Some (Folder []) else None) | Some e \<Rightarrow> Some e)" for k
    unfolding out' by (auto simp: map_add_def split: option.splits)
  have before': "\<forall>u. 1 \<le> u \<and> u < s \<longrightarrow> nonempty_folder outdir' (folder_for base u)"
    using before unfolding nonempty_folder_def look
    by (auto split: option.splits dir_entry.splits)
  have stop': "\<not> nonempty_folder outdir' ?name"
    using stop unfolding nonempty_folder_def look
    by (auto split: option.splits dir_entry.splits)
  have present: "map_of outdir' ?name \<noteq> None" "map_of outdir' ?name \<noteq> Some File"
    using nofile unfolding look by (auto split: option.splits)
  show ?thesis
    unfolding versioned_project_value [OF s before' stop', of output_base] paths
    using present by simp
qed

lemma versioned_project_reuse_empty:
  assumes "map_of outdir base = Some (Folder [])"
  shows "versioned_project outdir output_base base =
     Some (Inr ((path_join output_base base,
                 path_join (path_join output_base base) (base @ ''.psx'')), outdir))"
proof -
  have start: "folder_for base 1 = base" "file_for base 1 = base @ ''.psx''"
    by (simp_all add: folder_for_def file_for_def)
  have stop: "\<not> nonempty_folder outdir (folder_for base 1)"
    unfolding nonempty_folder_def start using assms by simp
  have before: "\<forall>u. 1 \<le> u \<and> u < (1::nat) \<longrightarrow> nonempty_folder outdir (folder_for base u)"
    by simp
  show ?thesis
    unfolding versioned_project_value [OF le_refl before stop, of output_base] start
    using assms by simp
qed

lemma first_absent_exists:
  "\<exists>s\<ge>v0. map_of outdir (folder_for base s) = None \<and>
      (\<forall>u. v0 \<le> u \<and> u < s \<longrightarrow> map_of outdir (folder_for base u) \<noteq> None)"
proof -
  let ?P = "\<lambda>u. v0 \<le> u \<and> map_of outdir (folder_for base u) = None"
  from free_version_exists [of v0 outdir base] have ex: "\<exists>u. ?P u" by auto
  define s where "s = (LEAST u. ?P u)"
  from ex have "?P s" unfolding s_def by (rule LeastI_ex)
  moreover have "map_of outdir (folder_for base u) \<noteq> None" if "v0 \<le> u" "u < s" for u
  proof
    assume "map_of outdir (folder_for base u) = None"
    with that have "?P u" by simp
    then have "s \<le> u" unfolding s_def by (rule Least_le)
    with that show False by simp
  qed
  ultimately show ?thesis by blast
qed

lemma combined_version_loop_unfold:
  "combined_version_loop outdir base v =
     (if map_of outdir (folder_for base v) = None then Some (v, folder_for base v)
      else combined_version_loop outdir base (v + 1))"
  by (subst combined_version_loop.simps) (simp only: folder_for_def)

lemma combined_version_loop_value:
  assumes "v0 \<le> s"
    and "\<forall>u. v0 \<le> u \<and> u < s \<longrightarrow> map_of outdir (folder_for base u) \<noteq> None"
    and "map_of outdir (folder_for base s) = None"
  shows "combined_version_loop outdir base v0 = Some (s, folder_for base s)"
  using assms
proof (induction "s - v0" arbitrary: v0)
  case 0
  then have "v0 = s" by simp
  with "0.prems"(3) show ?case
    by (subst combined_version_loop_unfold) simp
next
  case (Suc d)
  then have lt: "v0 < s" by simp
  with Suc.prems(2) have ex: "map_of outdir (folder_for base v0) \<noteq> None" by simp
  have IH: "combined_version_loop outdir base (v0 + 1) = Some (s, folder_for base s)"
    using Suc.hyps(2) lt Suc.prems(2,3) by (intro Suc.hyps(1)) auto
  have step: "combined_version_loop outdir base v0 = combined_version_loop outdir base (v0 + 1)"
    using ex by (subst combined_version_loop_unfold) auto
  show ?case unfolding step by (rule IH)
qed

lemma map_entry_append_new:
  "map_of xs k = None \<Longrightarrow> AList.map_entry k f (xs @ [(k, v)]) = xs @ [(k, f v)]"
  by (induction xs) (auto split: if_splits)

lemma create_project_structure_rgb_ms_single_value:
  "\<exists>version\<ge>1.
     (\<forall>u. 1 \<le> u \<and> u < version \<longrightarrow>
        map_of outdir (folder_for (''route_'' @ route_name @ ''_Combined'') u) \<noteq> None) \<and>
     map_of outdir (folder_for (''route_'' @ route_name @ ''_Combined'') version) = None \<and>
     create_project_structure_rgb_ms_single outdir base_path route_name =
       Some (Inr ((path_join base_path (folder_for (''route_'' @ route_name @ ''_Combined'') version),
                   folder_for (''route_'' @ route_name @ ''_Combined'') version),
                  outdir @ [(folder_for (''route_'' @ route_name @ ''_Combined'') version,
                             Folder [''orthomosaic'', ''dem'', ''pointcloud'', ''report''])]))"
proof -
  let ?b = "''route_'' @ route_name @ ''_Combined''"
  from first_absent_exists [of 1 outdir ?b] obtain s where s: "1 \<le> s"
    and absent: "map_of outdir (folder_for ?b s) = None"
    and before: "\<forall>u. 1 \<le> u \<and> u < s \<longrightarrow> map_of outdir (folder_for ?b u) \<noteq> None"
    by blast
  have loop: "combined_version_loop outdir ?b 1 = Some (s, folder_for ?b s)"
    using s before absent by (rule combined_version_loop_value)
  have "create_project_structure_rgb_ms_single outdir base_path route_name =
       Some (Inr ((path_join base_path (folder_for ?b s), folder_for ?b s),
                  outdir @ [(folder_for ?b s,
                             Folder [''orthomosaic'', ''dem'', ''pointcloud'', ''report''])]))"
    unfolding create_project_structure_rgb_ms_single_def loop
    using absent by (simp add: makedirs_def map_entry_append_new add_subfolders_def)
  with s absent before show ?thesis by blast
qed

lemma str_nat_2: "str_nat 2 = ''2''"
  by code_simp

lemma folder_for_first: "folder_for base 1 = base" "folder_for base (Suc 0) = base"
  by (simp_all add: folder_for_def)

lemma folder_for_second: "folder_for base 2 = base @ ''_v2''"
  by (simp add: folder_for_def str_nat_2)

lemma versioned_project_second:
  assumes m: "map_of outdir base = Some (Folder contents)" and ne: "contents \<noteq> []"
    and free: "map_of outdir (base @ ''_v2'') = None"
  shows "versioned_project outdir output_base base =
     Some (Inr ((path_join output_base (base @ ''_v2''),
                 path_join (path_join output_base (base @ ''_v2'')) (base @ ''_v2'' @ ''.psx'')),
                outdir @ [(base @ ''_v2'', Folder [])]))"
proof -
  have before: "\<forall>u. 1 \<le> u \<and> u < (2::nat) \<longrightarrow> nonempty_folder outdir (folder_for base u)"
  proof (intro allI impI)
    fix u :: nat assume "1 \<le> u \<and> u < 2"
    then have "u = 1" by simp
    then show "nonempty_folder outdir (folder_for base u)"
      using m ne by (simp add: folder_for_first nonempty_folder_def)
  qed
  have stop: "\<not> nonempty_folder outdir (folder_for base 2)"
    unfolding folder_for_second using free by (simp add: nonempty_folder_def)
  have "(1::nat) \<le> 2" by simp
  from versioned_project_value [OF this before stop, of output_base] show ?thesis
    unfolding file_for_def folder_for_second using free by simp
qed

lemma route_005_second_version:
  assumes "contents \<noteq> []"
  shows "create_project_structure [(''route_005_RGB'', Folder contents)] ''005'' ''out'' =
     Some (Inr ((''out/route_005_RGB_v2'', ''out/route_005_RGB_v2/route_005_RGB_v2.psx''),
                [(''route_005_RGB'', Folder contents), (''route_005_RGB_v2'', Folder [])]))"
  using versioned_project_second
    [of "[(''route_005_RGB'', Folder contents)]" "''route_005_RGB''" contents "''out''"] assms
  by (simp add: create_project_structure_def path_join_def)

text \<open>
  Claim C5. \<open>create_project_structure\<close> of the single-route RGB script always returns. It
  tries version 1 (the plain name), then 2, 3, ... and stops at the first version whose
  folder is not an existing non-empty folder: every earlier version is a non-empty folder,
  and the folder it returns is absent (then it is created) or empty (then it is used as it
  is), so no existing non-empty folder is returned. The one other outcome is the error
  \<open>os.listdir\<close> raises when the name at which the loop stops is a regular file. When
  \<open>route_005_RGB\<close> exists and has content, and nothing else is there, the result is
  \<open>route_005_RGB_v2\<close>.
\<close>

theorem create_project_structure_versions:
  "(\<exists>version\<ge>1.
      (\<forall>u. 1 \<le> u \<and> u < version \<longrightarrow>
         nonempty_folder outdir (folder_for (''route_'' @ route_no @ ''_RGB'') u)) \<and>
      \<not> nonempty_folder outdir (folder_for (''route_'' @ route_no @ ''_RGB'') version) \<and>
      create_project_structure outdir route_no output_base =
        Some (if map_of outdir (folder_for (''route_'' @ route_no @ ''_RGB'') version) = Some File
              then Inl NotADirectoryError
              else Inr ((path_join output_base (folder_for (''route_'' @ route_no @ ''_RGB'') version),
                         path_join
                           (path_join output_base (folder_for (''route_'' @ route_no @ ''_RGB'') version))
                           (file_for (''route_'' @ route_no @ ''_RGB'') version)),
                        (if map_of outdir (folder_for (''route_'' @ route_no @ ''_RGB'') version) = None
                         then outdir @ [(folder_for (''route_'' @ route_no @ ''_RGB'') version, Folder [])]
                         else outdir)))) \<and>
   (\<forall>contents. contents \<noteq> [] \<longrightarrow>
      create_project_structure [(''route_005_RGB'', Folder contents)] ''005'' ''out'' =
        Some (Inr ((''out/route_005_RGB_v2'', ''out/route_005_RGB_v2/route_005_RGB_v2.psx''),
                   [(''route_005_RGB'', Folder contents), (''route_005_RGB_v2'', Folder [])])))"
proof (intro conjI allI impI)
  let ?b = "''route_'' @ route_no @ ''_RGB''"
  from stop_version_exists [of 1 outdir ?b] obtain s where s: "1 \<le> s"
    and stop: "\<not> nonempty_folder outdir (folder_for ?b s)"
    and before: "\<forall>u. 1 \<le> u \<and> u < s \<longrightarrow> nonempty_folder outdir (folder_for ?b u)"
    by blast
  from versioned_project_value [OF s before stop, of output_base]
  have "create_project_structure outdir route_no output_base =
        Some (if map_of outdir (folder_for ?b s) = Some File
              then Inl NotADirectoryError
              else Inr ((path_join output_base (folder_for ?b s),
                         path_join (path_join output_base (folder_for ?b s)) (file_for ?b s)),
                        (if map_of outdir (folder_for ?b s) = None
                         then outdir @ [(folder_for ?b s, Folder [])]
                         else outdir)))"
    unfolding create_project_structure_def .
  with s stop before show "\<exists>version\<ge>1.
      (\<forall>u. 1 \<le> u \<and> u < version \<longrightarrow> nonempty_folder outdir (folder_for ?b u)) \<and>
      \<not> nonempty_folder outdir (folder_for ?b version) \<and>
      create_project_structure outdir route_no output_base =
        Some (if map_of outdir (folder_for ?b version) = Some File
              then Inl NotADirectoryError
              else Inr ((path_join output_base (folder_for ?b version),
                         path_join (path_join output_base (folder_for ?b version))
                           (file_for ?b version)),
                        (if map_of outdir (folder_for ?b version) = None
                         then outdir @ [(folder_for ?b version, Folder [])]
                         else outdir)))"
    by blast
next
  fix contents :: "string list"
  assume "contents \<noteq> []"
  then show "create_project_structure [(''route_005_RGB'', Folder contents)] ''005'' ''out'' =
        Some (Inr ((''out/route_005_RGB_v2'', ''out/route_005_RGB_v2/route_005_RGB_v2.psx''),
                   [(''route_005_RGB'', Folder contents), (''route_005_RGB_v2'', Folder [])]))"
    by (rule route_005_second_version)
qed

theorem create_project_structure_versions_witness:
  "[''route_005_RGB.psx'', ''route_005_RGB.files''] \<noteq> [] \<and>
   create_project_structure
     [(''route_005_RGB'', Folder [''route_005_RGB.psx'', ''route_005_RGB.files''])] ''005'' ''out'' =
   Some (Inr ((''out/route_005_RGB_v2'', ''out/route_005_RGB_v2/route_005_RGB_v2.psx''),
              [(''route_005_RGB'', Folder [''route_005_RGB.psx'', ''route_005_RGB.files'']),
               (''route_005_RGB_v2'', Folder [])]))"
  using create_project_structure_versions [of "[]" "''005''" "''out''"]
  by simp

lemma rgb_ms_single_never_repeats:
  assumes first: "create_project_structure_rgb_ms_single outdir base_path route_name =
      Some (Inr (paths, outdir'))"
  shows "create_project_structure_rgb_ms_single outdir' base_path route_name \<noteq>
      Some (Inr (paths, outdir''))"
proof
  let ?b = "''route_'' @ route_name @ ''_Combined''"
  let ?subs = "Folder [''orthomosaic'', ''dem'', ''pointcloud'', ''report'']"
  assume second: "create_project_structure_rgb_ms_single outdir' base_path route_name =
      Some (Inr (paths, outdir''))"
  from create_project_structure_rgb_ms_single_value [of outdir route_name base_path] first
  obtain s where absent: "map_of outdir (folder_for ?b s) = None"
    and p: "snd paths = folder_for ?b s"
    and out': "outdir' = outdir @ [(folder_for ?b s, ?subs)]"
    by auto
  from create_project_structure_rgb_ms_single_value [of outdir' route_name base_path] second
  obtain s' where absent': "map_of outdir' (folder_for ?b s') = None"
    and p': "snd paths = folder_for ?b s'"
    by auto
  from p p' have "folder_for ?b s' = folder_for ?b s" by simp
  with absent' have "map_of outdir' (folder_for ?b s) = None" by simp
  then show False
    unfolding out' using absent by (simp add: map_add_def)
qed

text \<open>
  Claim C4, as it holds on the code. \<open>versioned_project\<close> is the body of
  \<open>create_project_structure\<close> (single-route RGB), \<open>create_project_structure_ms\<close> and the
  three \<open>create_combined_project_structure\<close> functions. Called again on the directory
  state its first call left, it returns the same pair and changes nothing; an existing
  empty folder with the plain name is returned as it is, at version 1.
  \<open>create_project_structure\<close> of the single-route RGB+MS script is different: it returns
  the first version whose name does not exist at all, creates that folder with four
  subfolders, and therefore never returns the same pair on the next call.
\<close>

theorem versioned_project_idempotent:
  "(versioned_project outdir output_base base = Some (Inr (paths, outdir')) \<longrightarrow>
      versioned_project outdir' output_base base = Some (Inr (paths, outdir'))) \<and>
   (map_of outdir base = Some (Folder []) \<longrightarrow>
      versioned_project outdir output_base base =
        Some (Inr ((path_join output_base base,
                    path_join (path_join output_base base) (base @ ''.psx'')), outdir))) \<and>
   (\<exists>version\<ge>1.
     (\<forall>u. 1 \<le> u \<and> u < version \<longrightarrow>
        map_of outdir (folder_for (''route_'' @ route_name @ ''_Combined'') u) \<noteq> None) \<and>
     map_of outdir (folder_for (''route_'' @ route_name @ ''_Combined'') version) = None \<and>
     create_project_structure_rgb_ms_single outdir output_base route_name =
       Some (Inr ((path_join output_base (folder_for (''route_'' @ route_name @ ''_Combined'') version),
                   folder_for (''route_'' @ route_name @ ''_Combined'') version),
                  outdir @ [(folder_for (''route_'' @ route_name @ ''_Combined'') version,
                             Folder [''orthomosaic'', ''dem'', ''pointcloud'', ''report''])]))) \<and>
   (create_project_structure_rgb_ms_single outdir output_base route_name = Some (Inr (paths, outdir')) \<longrightarrow>
      create_project_structure_rgb_ms_single outdir' output_base route_name \<noteq>
        Some (Inr (paths, outdir''))) \<and>
   (create_project_structure outdir route_name output_base = Some (Inr (paths, outdir')) \<longrightarrow>
      create_project_structure outdir' route_name output_base = Some (Inr (paths, outdir'))) \<and>
   (create_project_structure_ms outdir route_name output_base = Some (Inr (paths, outdir')) \<longrightarrow>
      create_project_structure_ms outdir' route_name output_base = Some (Inr (paths, outdir'))) \<and>
   (create_combined_project_structure kind outdir output_base route_nums = Some (Inr (paths, outdir')) \<longrightarrow>
      create_combined_project_structure kind outdir' output_base route_nums =
        Some (Inr (paths, outdir')))"
  using versioned_project_rerun [of outdir output_base base paths outdir']
    versioned_project_reuse_empty [of outdir base output_base]
    create_project_structure_rgb_ms_single_value [of outdir route_name output_base]
    rgb_ms_single_never_repeats [of outdir output_base route_name paths outdir' outdir'']
    versioned_project_rerun [of outdir output_base _ paths outdir']
  unfolding create_project_structure_def create_project_structure_ms_def
    create_combined_project_structure_def
  by (intro conjI impI) assumption+

lemma versioned_project_example:
  "versioned_project [(''route_005_RGB'', Folder [''route_005_RGB.psx''])] ''out'' ''route_005_RGB'' =
   Some (Inr ((''out/route_005_RGB_v2'', ''out/route_005_RGB_v2/route_005_RGB_v2.psx''),
              [(''route_005_RGB'', Folder [''route_005_RGB.psx'']), (''route_005_RGB_v2'', Folder [])]))"
  by code_simp

theorem versioned_project_idempotent_witness:
  "versioned_project
     [(''route_005_RGB'', Folder [''route_005_RGB.psx'']), (''route_005_RGB_v2'', Folder [])]
     ''out'' ''route_005_RGB'' =
   Some (Inr ((''out/route_005_RGB_v2'', ''out/route_005_RGB_v2/route_005_RGB_v2.psx''),
              [(''route_005_RGB'', Folder [''route_005_RGB.psx'']), (''route_005_RGB_v2'', Folder [])]))"
  using versioned_project_idempotent
    [of "[(''route_005_RGB'', Folder [''route_005_RGB.psx''])]" "''out''" "''route_005_RGB''"
        "(''out/route_005_RGB_v2'', ''out/route_005_RGB_v2/route_005_RGB_v2.psx'')"
        "[(''route_005_RGB'', Folder [''route_005_RGB.psx'']), (''route_005_RGB_v2'', Folder [])]"]
    versioned_project_example
  by blast

text \<open>
  In the single-route RGB+MS script an existing empty folder \<open>route_005_Combined\<close> is
  passed over and \<open>route_005_Combined_v2\<close> is created.
\<close>

theorem rgb_ms_single_empty_folder_counterexample:
  "create_project_structure_rgb_ms_single [(''route_005_Combined'', Folder [])] ''out'' ''005'' =
   Some (Inr ((''out/route_005_Combined_v2'', ''route_005_Combined_v2''),
              [(''route_005_Combined'', Folder []),
               (''route_005_Combined_v2'',
                Folder [''orthomosaic'', ''dem'', ''pointcloud'', ''report''])]))"
  by code_simp

section \<open>Saving the project and its fallback\<close>

lemma primary_save_result:
  "fst (primary_save eng) = (if primary_ok eng then Inr True else fst (primary_save eng)) \<and>
   (primary_ok eng \<longleftrightarrow> (\<exists>b. fst (primary_save eng) = Inr b))"
  by (cases "chunk_in_doc eng"; cases "append_chunk eng"; cases "save_chunks eng")
     (auto simp: primary_save_def primary_ok_def Let_def)

lemma primary_save_ok: "primary_ok eng \<Longrightarrow> fst (primary_save eng) = Inr True"
  using primary_save_result [of eng] by metis

lemma primary_save_failed: "\<not> primary_ok eng \<Longrightarrow> \<exists>msg. fst (primary_save eng) = Inl msg"
proof -
  assume n: "\<not> primary_ok eng"
  obtain r where r: "fst (primary_save eng) = r" by simp
  show ?thesis
  proof (cases r)
    case (Inl msg)
    with r show ?thesis by blast
  next
    case (Inr b)
    with r have "\<exists>b. fst (primary_save eng) = Inr b" by blast
    with primary_save_result [of eng] n show ?thesis by blast
  qed
qed

lemma primary_save_calls:
  "CallSave \<notin> set (snd (primary_save eng)) \<and>
   count_list (snd (primary_save eng)) CallSaveChunks \<le> 1"
  by (cases "chunk_in_doc eng"; cases "append_chunk eng"; cases "save_chunks eng")
     (auto simp: primary_save_def Let_def)

text \<open>
  Claim C7, as it holds on the code. In the single-route scripts
  \<open>enhanced_save_project\<close> never raises; it returns \<open>True\<close> when the \<open>try\<close> block went
  through or, after a failure there, when the one save without the \<open>chunks\<close> argument
  succeeded, and \<open>False\<close> only when both failed. The save without \<open>chunks\<close> is called
  exactly when the \<open>try\<close> block failed, and each of the two saves is called at most once.
  In the multi-route scripts the function calls \<open>doc.save(project_path)\<close> once and returns
  whether it succeeded; there is no second attempt.
\<close>

theorem enhanced_save_project_fallback:
  "fst (enhanced_save_project eng) = Inr (primary_ok eng \<or> save_plain eng = Returns ()) \<and>
   (CallSave \<in> set (snd (enhanced_save_project eng)) \<longleftrightarrow> \<not> primary_ok eng) \<and>
   count_list (snd (enhanced_save_project eng)) CallSave \<le> 1 \<and>
   count_list (snd (enhanced_save_project eng)) CallSaveChunks \<le> 1 \<and>
   enhanced_save_project_combined eng = (Inr (save_plain eng = Returns ()), [CallSave])"
proof -
  obtain r calls where p: "primary_save eng = (r, calls)" by (cases "primary_save eng")
  from primary_save_calls [of eng] p have calls: "CallSave \<notin> set calls"
    "count_list calls CallSaveChunks \<le> 1" by simp_all
  have comb: "enhanced_save_project_combined eng = (Inr (save_plain eng = Returns ()), [CallSave])"
    by (cases "save_plain eng") (simp_all add: enhanced_save_project_combined_def)
  show ?thesis
  proof (cases "primary_ok eng")
    case True
    with primary_save_ok [OF True] p have "r = Inr True" by simp
    then have "enhanced_save_project eng = (Inr True, calls)"
      by (simp add: enhanced_save_project_def p)
    with True calls comb show ?thesis by (simp add: count_list_0_iff)
  next
    case False
    with primary_save_failed [OF False] p obtain msg where "r = Inl msg" by auto
    then have "enhanced_save_project eng =
        (Inr (save_plain eng = Returns ()), calls @ [CallSave])"
      by (cases "save_plain eng") (simp_all add: enhanced_save_project_def p)
    with False calls comb show ?thesis by (simp add: count_list_0_iff)
  qed
qed

theorem enhanced_save_project_fallback_witness:
  "enhanced_save_project
     \<lparr>chunk_in_doc = Returns True, append_chunk = Returns (),
      save_chunks = Raises ''cannot write archive'', save_plain = Returns ()\<rparr> =
   (Inr True, [CallSaveChunks, CallSave])"
proof -
  let ?eng = "\<lparr>chunk_in_doc = Returns True, append_chunk = Returns (),
      save_chunks = Raises ''cannot write archive'', save_plain = Returns ()\<rparr>"
  have calls: "snd (enhanced_save_project ?eng) = [CallSaveChunks, CallSave]"
    by (simp add: enhanced_save_project_def primary_save_def)
  from enhanced_save_project_fallback [of ?eng]
  have "fst (enhanced_save_project ?eng) = Inr True" by simp
  with calls show ?thesis by (simp add: prod_eq_iff)
qed

text \<open>
  In a multi-route script a failing save gives \<open>False\<close> after a single call.
\<close>

theorem enhanced_save_project_combined_counterexample:
  "enhanced_save_project_combined
     \<lparr>chunk_in_doc = Returns True, append_chunk = Returns (),
      save_chunks = Returns (), save_plain = Raises ''disk full''\<rparr> =
   (Inr False, [CallSave])"
  by (simp add: enhanced_save_project_combined_def)

section \<open>Validation after the merge\<close>

lemma remove_originals_report:
  "x \<in> set (snd (remove_originals eng d cs)) \<Longrightarrow> \<exists>msg. x = RemoveError msg"
proof (induction cs arbitrary: d)
  case Nil
  then show ?case by simp
next
  case (Cons c cs)
  show ?case
  proof (cases "remove_chunk eng d c")
    case (Returns d')
    with Cons.prems have "x \<in> set (snd (remove_originals eng d' cs))" by simp
    then show ?thesis by (rule Cons.IH)
  next
    case (Raises msg)
    obtain d' report where rest: "remove_originals eng d cs = (d', report)"
      by (cases "remove_originals eng d cs")
    with Raises Cons.prems have "x = RemoveError msg \<or> x \<in> set report" by simp
    then show ?thesis
    proof
      assume "x = RemoveError msg"
      then show ?thesis by blast
    next
      assume "x \<in> set report"
      with rest have "x \<in> set (snd (remove_originals eng d cs))" by simp
      then show ?thesis by (rule Cons.IH)
    qed
  qed
qed

lemma merge_after_checks:
  assumes r: "merge_reaches_checks eng doc chunks_to_merge doc1"
  shows "\<exists>removal_report cleanup_report.
     merge_chunks_with_validation merged_label kind eng doc chunks_to_merge =
       ((if sum_list (markers (last doc1)) = 0
         then Inl (RuntimeError (kind @ '' chunk merge failed: '' @
                     ''No marker projections found after merge!''))
         else Inr ((last doc1)\<lparr>chunk_label := merged_label\<rparr>)),
        removal_report @ cleanup_report @
        (if cameras (last doc1) \<noteq> sum_list (map cameras chunks_to_merge)
         then [CameraCountMismatch (sum_list (map cameras chunks_to_merge)) (cameras (last doc1))]
         else [CameraCountValidated (cameras (last doc1))]) @
        [MarkerConsolidation (sum_list (map (\<lambda>c. length (markers c)) chunks_to_merge))
           (length (markers (last doc1)))]) \<and>
     (\<forall>x\<in>set (removal_report @ cleanup_report).
         \<forall>a b. x \<noteq> CameraCountMismatch a b \<and> x \<noteq> CameraCountValidated a)"
proof -
  let ?merged = "(last doc1)\<lparr>chunk_label := merged_label\<rparr>"
  let ?doc2 = "butlast doc1 @ [?merged]"
  let ?rm = "remove_originals eng ?doc2
      (rev (filter (\<lambda>c. chunk_id c \<in> chunk_id ` set ?doc2) chunks_to_merge))"
  let ?cleanup = "if length (fst ?rm) \<noteq> 1 then [ChunkCountWarning (length (fst ?rm))]
                  else [CleanupVerified]"
  have rr: "\<forall>x\<in>set (snd ?rm). \<exists>msg. x = RemoveError msg"
    using remove_originals_report by blast
  from r have al: "(if 1 < length (remdups (List.map_filter crs chunks_to_merge))
                    then alignChunks eng doc chunks_to_merge else Returns ()) = Returns ()"
    and mg: "mergeChunks eng doc chunks_to_merge = Returns doc1"
    and gr: "\<not> length doc1 \<le> length doc"
    by (auto simp: merge_reaches_checks_def)
  have val: "merge_chunks_with_validation merged_label kind eng doc chunks_to_merge =
       ((if sum_list (markers (last doc1)) = 0
         then Inl (RuntimeError (kind @ '' chunk merge failed: '' @
                     ''No marker projections found after merge!''))
         else Inr ?merged),
        snd ?rm @ ?cleanup @
        (if cameras (last doc1) \<noteq> sum_list (map cameras chunks_to_merge)
         then [CameraCountMismatch (sum_list (map cameras chunks_to_merge)) (cameras (last doc1))]
         else [CameraCountValidated (cameras (last doc1))]) @
        [MarkerConsolidation (sum_list (map (\<lambda>c. length (markers c)) chunks_to_merge))
           (length (markers (last doc1)))])"
    unfolding merge_chunks_with_validation_def Let_def al mg
    using gr by (simp add: case_prod_beta)
  have "\<forall>x\<in>set (snd ?rm @ ?cleanup).
         \<forall>a b. x \<noteq> CameraCountMismatch a b \<and> x \<noteq> CameraCountValidated a"
    using rr by auto
  with val show ?thesis by blast
qed

lemma merge_result_has_projections:
  assumes "fst (merge_chunks_with_validation merged_label kind eng doc chunks_to_merge) = Inr merged"
  shows "sum_list (markers merged) \<noteq> 0"
  using assms unfolding merge_chunks_with_validation_def Let_def
  by (auto simp del: sum_list_eq_0_iff split: outcome.splits if_splits prod.splits)

text \<open>
  Claim C6. \<open>merge_chunks_with_validation\<close> returns a merged chunk only if that chunk has
  marker projections. Once alignment and merge went through and the document grew: with
  zero projections in the merged chunk it raises \<open>RuntimeError\<close>, and the run is aborted;
  otherwise it returns the merged chunk; and its report holds the camera-count mismatch
  line, with the expected and the found number, exactly when the cameras of the merged
  chunk differ from the sum over the chunks that were merged.
\<close>

theorem merge_chunks_with_validation_checks:
  "(\<forall>merged. fst (merge_chunks_with_validation merged_label kind eng doc chunks_to_merge) = Inr merged
       \<longrightarrow> sum_list (markers merged) \<noteq> 0) \<and>
   (merge_reaches_checks eng doc chunks_to_merge doc1 \<longrightarrow>
      (sum_list (markers (last doc1)) = 0 \<longrightarrow>
         fst (merge_chunks_with_validation merged_label kind eng doc chunks_to_merge) =
           Inl (RuntimeError (kind @ '' chunk merge failed: '' @
                  ''No marker projections found after merge!'')) \<and>
         merge_step_of (fst (merge_chunks_with_validation merged_label kind eng doc chunks_to_merge))
           = RunAborted) \<and>
      (sum_list (markers (last doc1)) \<noteq> 0 \<longrightarrow>
         fst (merge_chunks_with_validation merged_label kind eng doc chunks_to_merge) =
           Inr ((last doc1)\<lparr>chunk_label := merged_label\<rparr>)) \<and>
      (cameras (last doc1) \<noteq> sum_list (map cameras chunks_to_merge) \<longrightarrow>
         CameraCountMismatch (sum_list (map cameras chunks_to_merge)) (cameras (last doc1))
           \<in> set (snd (merge_chunks_with_validation merged_label kind eng doc chunks_to_merge))) \<and>
      (cameras (last doc1) = sum_list (map cameras chunks_to_merge) \<longrightarrow>
         (\<forall>a b. CameraCountMismatch a b
            \<notin> set (snd (merge_chunks_with_validation merged_label kind eng doc chunks_to_merge)))))"
proof (intro conjI allI impI)
  fix merged
  assume "fst (merge_chunks_with_validation merged_label kind eng doc chunks_to_merge) = Inr merged"
  then show "sum_list (markers merged) \<noteq> 0" by (rule merge_result_has_projections)
next
  assume r: "merge_reaches_checks eng doc chunks_to_merge doc1"
    and z: "sum_list (markers (last doc1)) = 0"
  from merge_after_checks [OF r, of merged_label kind] z
  show "fst (merge_chunks_with_validation merged_label kind eng doc chunks_to_merge) =
           Inl (RuntimeError (kind @ '' chunk merge failed: '' @
                  ''No marker projections found after merge!''))"
    by (auto simp del: sum_list_eq_0_iff)
  then show "merge_step_of (fst (merge_chunks_with_validation merged_label kind eng doc chunks_to_merge))
           = RunAborted"
    by (simp add: merge_step_of_def)
next
  assume r: "merge_reaches_checks eng doc chunks_to_merge doc1"
    and nz: "sum_list (markers (last doc1)) \<noteq> 0"
  from merge_after_checks [OF r, of merged_label kind] nz
  show "fst (merge_chunks_with_validation merged_label kind eng doc chunks_to_merge) =
           Inr ((last doc1)\<lparr>chunk_label := merged_label\<rparr>)"
    by (auto simp del: sum_list_eq_0_iff)
next
  assume r: "merge_reaches_checks eng doc chunks_to_merge doc1"
    and ne: "cameras (last doc1) \<noteq> sum_list (map cameras chunks_to_merge)"
  from merge_after_checks [OF r, of merged_label kind] ne
  show "CameraCountMismatch (sum_list (map cameras chunks_to_merge)) (cameras (last doc1))
           \<in> set (snd (merge_chunks_with_validation merged_label kind eng doc chunks_to_merge))"
    by (auto simp del: sum_list_eq_0_iff)
next
  fix a b
  assume r: "merge_reaches_checks eng doc chunks_to_merge doc1"
    and e: "cameras (last doc1) = sum_list (map cameras chunks_to_merge)"
  from merge_after_checks [OF r, of merged_label kind] obtain removal_report cleanup_report where
    v: "snd (merge_chunks_with_validation merged_label kind eng doc chunks_to_merge) =
        removal_report @ cleanup_report @
        (if cameras (last doc1) \<noteq> sum_list (map cameras chunks_to_merge)
         then [CameraCountMismatch (sum_list (map cameras chunks_to_merge)) (cameras (last doc1))]
         else [CameraCountValidated (cameras (last doc1))]) @
        [MarkerConsolidation (sum_list (map (\<lambda>c. length (markers c)) chunks_to_merge))
           (length (markers (last doc1)))]"
    and o: "\<forall>x\<in>set (removal_report @ cleanup_report).
         \<forall>a b. x \<noteq> CameraCountMismatch a b \<and> x \<noteq> CameraCountValidated a"
    by fastforce
  show "CameraCountMismatch a b
            \<notin> set (snd (merge_chunks_with_validation merged_label kind eng doc chunks_to_merge))"
    unfolding v using e o by auto
qed

theorem merge_chunks_with_validation_checks_witness:
  "fst (merge_chunks_with_validation ''Merged_RGB_Routes'' ''RGB''
     \<lparr>alignChunks = (\<lambda>doc cs. Returns ()),
      mergeChunks = (\<lambda>doc cs. Returns (doc @
        [\<lparr>chunk_id = 3, chunk_label = ''Merged Chunk'', cameras = 5, markers = [0, 0],
          crs = Some ''EPSG::4258''\<rparr>])),
      remove_chunk = (\<lambda>doc c. Returns (filter (\<lambda>d. chunk_id d \<noteq> chunk_id c) doc))\<rparr>
     [\<lparr>chunk_id = 1, chunk_label = ''Route_001_RGB'', cameras = 3, markers = [2, 1],
        crs = Some ''EPSG::4258''\<rparr>,
      \<lparr>chunk_id = 2, chunk_label = ''Route_002_RGB'', cameras = 3, markers = [2],
        crs = Some ''EPSG::4258''\<rparr>]
     [\<lparr>chunk_id = 1, chunk_label = ''Route_001_RGB'', cameras = 3, markers = [2, 1],
        crs = Some ''EPSG::4258''\<rparr>,
      \<lparr>chunk_id = 2, chunk_label = ''Route_002_RGB'', cameras = 3, markers = [2],
        crs = Some ''EPSG::4258''\<rparr>]) =
   Inl (RuntimeError ''RGB chunk merge failed: No marker projections found after merge!'') \<and>
   CameraCountMismatch 6 5 \<in> set (snd (merge_chunks_with_validation ''Merged_RGB_Routes'' ''RGB''
     \<lparr>alignChunks = (\<lambda>doc cs. Returns ()),
      mergeChunks = (\<lambda>doc cs. Returns (doc @
        [\<lparr>chunk_id = 3, chunk_label = ''Merged Chunk'', cameras = 5, markers = [0, 0],
          crs = Some ''EPSG::4258''\<rparr>])),
      remove_chunk = (\<lambda>doc c. Returns (filter (\<lambda>d. chunk_id d \<noteq> chunk_id c) doc))\<rparr>
     [\<lparr>chunk_id = 1, chunk_label = ''Route_001_RGB'', cameras = 3, markers = [2, 1],
        crs = Some ''EPSG::4258''\<rparr>,
      \<lparr>chunk_id = 2, chunk_label = ''Route_002_RGB'', cameras = 3, markers = [2],
        crs = Some ''EPSG::4258''\<rparr>]
     [\<lparr>chunk_id = 1, chunk_label = ''Route_001_RGB'', cameras = 3, markers = [2, 1],
        crs = Some ''EPSG::4258''\<rparr>,
      \<lparr>chunk_id = 2, chunk_label = ''Route_002_RGB'', cameras = 3, markers = [2],
        crs = Some ''EPSG::4258''\<rparr>]))"
proof -
  let ?c1 = "\<lparr>chunk_id = 1, chunk_label = ''Route_001_RGB'', cameras = 3, markers = [2, 1],
        crs = Some ''EPSG::4258''\<rparr>"
  let ?c2 = "\<lparr>chunk_id = 2, chunk_label = ''Route_002_RGB'', cameras = 3, markers = [2],
        crs = Some ''EPSG::4258''\<rparr>"
  let ?m = "\<lparr>chunk_id = 3, chunk_label = ''Merged Chunk'', cameras = 5, markers = [0, 0],
          crs = Some ''EPSG::4258''\<rparr>"
  let ?eng = "\<lparr>alignChunks = (\<lambda>doc cs. Returns ()),
      mergeChunks = (\<lambda>doc cs. Returns (doc @ [?m])),
      remove_chunk = (\<lambda>doc c. Returns (filter (\<lambda>d. chunk_id d \<noteq> chunk_id c) doc))\<rparr>"
  have reach: "merge_reaches_checks ?eng [?c1, ?c2] [?c1, ?c2] ([?c1, ?c2] @ [?m])"
    by (simp add: merge_reaches_checks_def)
  from merge_chunks_with_validation_checks
    [of "''Merged_RGB_Routes''" "''RGB''" ?eng "[?c1, ?c2]" "[?c1, ?c2]" "[?c1, ?c2] @ [?m]"] reach
  show ?thesis by simp
qed

section \<open>At least two routes for a combination\<close>

lemma found_routes_length:
  "length (List.map_filter (\<lambda>route_num. find (\<lambda>route. number_of route = route_num) all_routes)
             route_nums) =
   length (resolved_numbers number_of route_nums all_routes)"
proof (induction route_nums)
  case Nil
  show ?case by (simp add: resolved_numbers_def List.map_filter_simps)
next
  case (Cons n ns)
  show ?case
  proof (cases "find (\<lambda>route. number_of route = n) all_routes")
    case None
    then have "n \<notin> number_of ` set all_routes" by (auto simp: find_None_iff)
    with None Cons show ?thesis
      by (simp add: resolved_numbers_def List.map_filter_simps)
  next
    case (Some r)
    then have "n \<in> number_of ` set all_routes"
      by (auto simp: find_Some_iff)
    with Some Cons show ?thesis
      by (simp add: resolved_numbers_def List.map_filter_simps)
  qed
qed

lemma find_routes_minimum:
  assumes "length (resolved_numbers number_of route_nums all_routes) < 2"
  shows "find_routes_by_numbers number_of route_nums all_routes = []"
  using assms unfolding find_routes_by_numbers_def Let_def found_routes_length by simp

lemma find_routes_result:
  "find_routes_by_numbers number_of route_nums all_routes \<noteq> [] \<Longrightarrow>
     2 \<le> length (find_routes_by_numbers number_of route_nums all_routes)"
  unfolding find_routes_by_numbers_def Let_def by (auto split: if_splits)

lemma process_aborts_without_two_routes:
  assumes "\<And>dcim all_routes route_nums. scan dcim = Inr all_routes \<Longrightarrow>
      length (resolved_numbers number_of route_nums all_routes) < 2"
  shows "\<exists>msg. process_combined_routes v cfg scan file_exists number_of args = ReturnsFalse msg"
proof -
  have "find_routes_by_numbers number_of route_nums all_routes = []"
    if "scan dcim = Inr all_routes" for dcim all_routes route_nums
    using assms [OF that] by (rule find_routes_minimum)
  then show ?thesis
    unfolding process_combined_routes_def Let_def
    by (auto split: option.splits sum.splits variant.splits)
qed

lemma validate_inputs_minimum:
  "route_mode st = ''Multiple'' \<Longrightarrow> length (selected_routes st) < 2 \<Longrightarrow>
     fst (validate_inputs st) = False"
  by (simp add: validate_inputs_def)

lemma process_discovery_abort:
  assumes d: "effective_dcim cfg args = Some dcim" and s: "scan dcim = Inr all_routes"
    and few: "length (resolved_numbers number_of (effective_route_numbers cfg args) all_routes) < 2"
  shows "\<exists>msg. process_combined_routes v cfg scan file_exists number_of args = ReturnsFalse msg"
proof -
  let ?eff = "case v of RGB_MS \<Rightarrow> apply_defaults_rgb_ms cfg args | _ \<Rightarrow> apply_defaults cfg args"
  have rn: "arg_route_numbers ?eff = Some (effective_route_numbers cfg args)"
    by (cases v; cases "arg_route_numbers args")
       (simp_all add: apply_defaults_def apply_defaults_rgb_ms_def effective_route_numbers_def)
  have dc: "arg_dcim_path ?eff = Some dcim"
    using d by (cases v; cases "arg_dcim_path args")
       (simp_all add: apply_defaults_def apply_defaults_rgb_ms_def effective_dcim_def)
  have none: "find_routes_by_numbers number_of (effective_route_numbers cfg args) all_routes = []"
    using few by (rule find_routes_minimum)
  show ?thesis
    unfolding process_combined_routes_def Let_def
    by (cases "arg_gcp_path ?eff"; cases "arg_output_path ?eff") (simp_all add: rn dc s none)
qed

text \<open>
  Claim C10, as it holds on the code. The minimum of two routes is applied at route
  discovery and in the configuration tool. \<open>find_routes_by_numbers\<close> returns the empty
  list whenever fewer than two of the requested route numbers, counted with repetitions,
  occur in the catalog, and a non-empty result has at least two entries. In that case \<open>process_combined_routes\<close> of each of the three multi-route scripts
  returns \<open>False\<close> before any call into the engine. \<open>validate_inputs\<close> of the
  configuration tool returns \<open>False\<close> in Multiple mode with fewer than two selected routes.
\<close>

theorem multi_route_minimum:
  "(length (resolved_numbers number_of route_nums all_routes) < 2 \<longrightarrow>
      find_routes_by_numbers number_of route_nums all_routes = []) \<and>
   (find_routes_by_numbers number_of route_nums all_routes \<noteq> [] \<longrightarrow>
      2 \<le> length (find_routes_by_numbers number_of route_nums all_routes)) \<and>
   (effective_dcim cfg args = Some dcim \<and> scan dcim = Inr all_routes \<and>
    length (resolved_numbers number_of (effective_route_numbers cfg args) all_routes) < 2 \<longrightarrow>
      (\<exists>msg. process_combined_routes v cfg scan file_exists number_of args = ReturnsFalse msg)) \<and>
   (route_mode st = ''Multiple'' \<and> length (selected_routes st) < 2 \<longrightarrow>
      fst (validate_inputs st) = False)"
proof (intro conjI impI)
  assume "length (resolved_numbers number_of route_nums all_routes) < 2"
  then show "find_routes_by_numbers number_of route_nums all_routes = []"
    by (rule find_routes_minimum)
next
  assume "find_routes_by_numbers number_of route_nums all_routes \<noteq> []"
  then show "2 \<le> length (find_routes_by_numbers number_of route_nums all_routes)"
    by (rule find_routes_result)
next
  assume "effective_dcim cfg args = Some dcim \<and> scan dcim = Inr all_routes \<and>
    length (resolved_numbers number_of (effective_route_numbers cfg args) all_routes) < 2"
  then show "\<exists>msg. process_combined_routes v cfg scan file_exists number_of args = ReturnsFalse msg"
    using process_discovery_abort by blast
next
  assume "route_mode st = ''Multiple'' \<and> length (selected_routes st) < 2"
  then show "fst (validate_inputs st) = False"
    using validate_inputs_minimum by blast
qed

theorem multi_route_minimum_witness:
  "find_routes_by_numbers route_number [''001'', ''002'']
     [\<lparr>folder_name = ''DJI_202401010800_001_a'', folder_path = ''d/DJI_202401010800_001_a'',
       route_number = ''001'', rgb_count = 1,
       image_files = [''d/DJI_202401010800_001_a/x.JPG'']\<rparr>] = [] \<and>
   (\<exists>msg. process_combined_routes RGB
      \<lparr>dcim_base_path = Some ''d'', gcp_base_path = Some ''g'', output_base_path = Some ''o'',
       routes_to_combine = [''001'', ''002'']\<rparr>
      (\<lambda>dcim. Inr [\<lparr>folder_name = ''DJI_202401010800_001_a'',
                       folder_path = ''d/DJI_202401010800_001_a'',
                       route_number = ''001'', rgb_count = 1,
                       image_files = [''d/DJI_202401010800_001_a/x.JPG'']\<rparr>])
      (\<lambda>path. True) route_number no_args = ReturnsFalse msg) \<and>
   fst (validate_inputs
     \<lparr>script_base_path = ''s'', gui_dcim_path = ''d'', gui_gcp_path = ''g'', gui_output_path = ''o'',
      selected_routes = [''001''], route_mode = ''Multiple''\<rparr>) = False"
proof -
  let ?cat = "[\<lparr>folder_name = ''DJI_202401010800_001_a'', folder_path = ''d/DJI_202401010800_001_a'',
       route_number = ''001'', rgb_count = 1,
       image_files = [''d/DJI_202401010800_001_a/x.JPG'']\<rparr>]"
  let ?cfg = "\<lparr>dcim_base_path = Some ''d'', gcp_base_path = Some ''g'', output_base_path = Some ''o'',
       routes_to_combine = [''001'', ''002'']\<rparr>"
  let ?st = "\<lparr>script_base_path = ''s'', gui_dcim_path = ''d'', gui_gcp_path = ''g'',
      gui_output_path = ''o'', selected_routes = [''001''], route_mode = ''Multiple''\<rparr>"
  have few: "length (resolved_numbers route_number [''001'', ''002''] ?cat) < 2"
    by (simp add: resolved_numbers_def)
  have eff: "effective_dcim ?cfg no_args = Some ''d''"
    "effective_route_numbers ?cfg no_args = [''001'', ''002'']"
    by (simp_all add: effective_dcim_def effective_route_numbers_def no_args_def)
  have sel: "route_mode ?st = ''Multiple'' \<and> length (selected_routes ?st) < 2" by simp
  from multi_route_minimum
    [of route_number "[''001'', ''002'']" ?cat ?cfg no_args "''d''" "\<lambda>dcim. Inr ?cat"
        RGB "\<lambda>path. True" ?st]
    few eff sel
  show ?thesis by simp
qed

text \<open>
  The minimum is not applied to the routes that pass GCP validation, and a repeated request
  counts twice. With routes 001 and 002 in the catalog and requested, and a GCP file for
  route 001 only, the multi-route RGB script goes on to the engine with the single route
  001; with route 001 requested twice it goes on with that route twice.
\<close>

theorem multi_route_single_route_counterexample:
  "process_combined_routes RGB
      \<lparr>dcim_base_path = Some ''d'', gcp_base_path = Some ''g'', output_base_path = Some ''o'',
       routes_to_combine = [''001'', ''002'']\<rparr>
      (\<lambda>dcim. Inr [(''001'', ''DJI_202401010800_001_a''), (''002'', ''DJI_202401010800_002_b'')])
      (\<lambda>path. path = ''g/gcp_route_001.xml'') fst no_args =
     StartsEngine [((''001'', ''DJI_202401010800_001_a''), ''g/gcp_route_001.xml'')] ''o'' \<and>
   process_combined_routes RGB
      \<lparr>dcim_base_path = Some ''d'', gcp_base_path = Some ''g'', output_base_path = Some ''o'',
       routes_to_combine = [''001'', ''001'']\<rparr>
      (\<lambda>dcim. Inr [(''001'', ''DJI_202401010800_001_a'')])
      (\<lambda>path. path = ''g/gcp_route_001.xml'') fst no_args =
     StartsEngine [((''001'', ''DJI_202401010800_001_a''), ''g/gcp_route_001.xml''),
                   ((''001'', ''DJI_202401010800_001_a''), ''g/gcp_route_001.xml'')] ''o''"
  by code_simp

section \<open>The GCP path of a multi-route run\<close>

lemma rgb_ms_gcp_default:
  "arg_gcp_path (apply_defaults_rgb_ms cfg (args\<lparr>arg_gcp_path := None\<rparr>)) = arg_output_path args"
  by (simp add: apply_defaults_rgb_ms_def)

lemma rgb_gcp_default:
  "arg_gcp_path (apply_defaults cfg (args\<lparr>arg_gcp_path := None\<rparr>)) = gcp_base_path cfg"
  by (simp add: apply_defaults_def)

lemma effective_after_defaults:
  "arg_route_numbers (case v of RGB_MS \<Rightarrow> apply_defaults_rgb_ms cfg args | _ \<Rightarrow> apply_defaults cfg args) =
     Some (effective_route_numbers cfg args)"
  "arg_dcim_path (case v of RGB_MS \<Rightarrow> apply_defaults_rgb_ms cfg args | _ \<Rightarrow> apply_defaults cfg args) =
     effective_dcim cfg args"
  by (cases v; cases "arg_route_numbers args"; cases "arg_dcim_path args";
      simp add: apply_defaults_def apply_defaults_rgb_ms_def effective_route_numbers_def
        effective_dcim_def)+

lemma effective_ignores_gcp:
  "effective_route_numbers cfg (args\<lparr>arg_gcp_path := g\<rparr>) = effective_route_numbers cfg args"
  "effective_dcim cfg (args\<lparr>arg_gcp_path := g\<rparr>) = effective_dcim cfg args"
  by (simp_all add: effective_route_numbers_def effective_dcim_def)

lemma process_after_discovery:
  assumes dcim: "effective_dcim cfg args = Some dcim" "dcim \<noteq> []"
    and nums: "effective_route_numbers cfg args \<noteq> []"
    and scan: "scan dcim = Inr all_routes"
    and found: "find_routes_by_numbers number_of (effective_route_numbers cfg args) all_routes = found"
      "found \<noteq> []"
    and gcp: "arg_gcp_path (case v of RGB_MS \<Rightarrow> apply_defaults_rgb_ms cfg args
                             | _ \<Rightarrow> apply_defaults cfg args) = Some gcp" "gcp \<noteq> []"
    and out: "arg_output_path (case v of RGB_MS \<Rightarrow> apply_defaults_rgb_ms cfg args
                             | _ \<Rightarrow> apply_defaults cfg args) = Some out" "out \<noteq> []"
  shows "process_combined_routes v cfg scan file_exists number_of args =
     (if filter (\<lambda>r. file_exists (get_gcp_file_path v (number_of r) gcp)) found = []
      then ReturnsFalse ''route validation failed!''
      else StartsEngine
             (map (\<lambda>r. (r, get_gcp_file_path v (number_of r) gcp))
                (filter (\<lambda>r. file_exists (get_gcp_file_path v (number_of r) gcp)) found))
             out)"
  unfolding process_combined_routes_def Let_def
  by (simp add: effective_after_defaults dcim nums scan found gcp out validate_routes_and_gcps_def)

lemma rgb_ms_no_args_incomplete:
  "process_combined_routes RGB_MS cfg scan file_exists number_of no_args =
     ReturnsFalse ''ERROR: Configuration incomplete!''"
  unfolding process_combined_routes_def Let_def
  by (simp add: apply_defaults_rgb_ms_def no_args_def split: option.splits)

lemma rgb_ms_no_output_incomplete:
  "arg_output_path args = None \<Longrightarrow>
   process_combined_routes RGB_MS cfg scan file_exists number_of (args\<lparr>arg_gcp_path := None\<rparr>) =
     ReturnsFalse ''ERROR: Configuration incomplete!''"
  unfolding process_combined_routes_def Let_def
  by (simp add: apply_defaults_rgb_ms_def split: option.splits)

text \<open>
  Claim C1. When \<open>gcp_path\<close> is omitted, \<open>process_combined_routes\<close> of the multi-route
  RGB+MS script takes the \<open>output_path\<close> argument in its place and never reads the
  configured \<open>gcp_base_path\<close>. Once route discovery has succeeded, the run is determined
  by the GCP files under the output path: it ends with "route validation failed" when no
  discovered route has its GCP file there, and otherwise goes on to the engine with exactly
  the discovered routes whose GCP file exists under the output path, each paired with that
  file. In the multi-route RGB and MS scripts an omitted \<open>gcp_path\<close> is the configured
  \<open>gcp_base_path\<close>, and the same holds with the GCP files under that folder. Since the
  substitution comes before \<open>output_path\<close> gets its own default, a call of the RGB+MS
  function without an output path, and so the call without arguments, ends with
  "Configuration incomplete".
\<close>

theorem combined_gcp_path_default:
  "arg_gcp_path (apply_defaults_rgb_ms cfg (args\<lparr>arg_gcp_path := None\<rparr>)) = arg_output_path args \<and>
   arg_gcp_path (apply_defaults cfg (args\<lparr>arg_gcp_path := None\<rparr>)) = gcp_base_path cfg \<and>
   (effective_dcim cfg args = Some dcim \<and> dcim \<noteq> [] \<and> effective_route_numbers cfg args \<noteq> [] \<and>
    scan dcim = Inr all_routes \<and>
    find_routes_by_numbers number_of (effective_route_numbers cfg args) all_routes = found \<and>
    found \<noteq> [] \<and> arg_output_path args = Some out \<and> out \<noteq> [] \<longrightarrow>
      process_combined_routes RGB_MS cfg scan file_exists number_of (args\<lparr>arg_gcp_path := None\<rparr>) =
        (if filter (\<lambda>r. file_exists (get_gcp_file_path RGB_MS (number_of r) out)) found = []
         then ReturnsFalse ''route validation failed!''
         else StartsEngine
                (map (\<lambda>r. (r, get_gcp_file_path RGB_MS (number_of r) out))
                   (filter (\<lambda>r. file_exists (get_gcp_file_path RGB_MS (number_of r) out)) found))
                out)) \<and>
   (effective_dcim cfg args = Some dcim \<and> dcim \<noteq> [] \<and> effective_route_numbers cfg args \<noteq> [] \<and>
    scan dcim = Inr all_routes \<and>
    find_routes_by_numbers number_of (effective_route_numbers cfg args) all_routes = found \<and>
    found \<noteq> [] \<and> (v = RGB \<or> v = MS) \<and> gcp_base_path cfg = Some gcp_base \<and> gcp_base \<noteq> [] \<and>
    (case arg_output_path args of None \<Rightarrow> output_base_path cfg | Some p \<Rightarrow> Some p) = Some out \<and>
    out \<noteq> [] \<longrightarrow>
      process_combined_routes v cfg scan file_exists number_of (args\<lparr>arg_gcp_path := None\<rparr>) =
        (if filter (\<lambda>r. file_exists (get_gcp_file_path v (number_of r) gcp_base)) found = []
         then ReturnsFalse ''route validation failed!''
         else StartsEngine
                (map (\<lambda>r. (r, get_gcp_file_path v (number_of r) gcp_base))
                   (filter (\<lambda>r. file_exists (get_gcp_file_path v (number_of r) gcp_base)) found))
                out)) \<and>
   (arg_output_path args = None \<longrightarrow>
      process_combined_routes RGB_MS cfg scan file_exists number_of (args\<lparr>arg_gcp_path := None\<rparr>) =
        ReturnsFalse ''ERROR: Configuration incomplete!'') \<and>
   process_combined_routes RGB_MS cfg scan file_exists number_of no_args =
     ReturnsFalse ''ERROR: Configuration incomplete!''"
proof (intro conjI impI)
  show "arg_gcp_path (apply_defaults_rgb_ms cfg (args\<lparr>arg_gcp_path := None\<rparr>)) = arg_output_path args"
    by (rule rgb_ms_gcp_default)
  show "arg_gcp_path (apply_defaults cfg (args\<lparr>arg_gcp_path := None\<rparr>)) = gcp_base_path cfg"
    by (rule rgb_gcp_default)
  show "process_combined_routes RGB_MS cfg scan file_exists number_of no_args =
     ReturnsFalse ''ERROR: Configuration incomplete!''"
    by (rule rgb_ms_no_args_incomplete)
next
  assume "arg_output_path args = None"
  then show "process_combined_routes RGB_MS cfg scan file_exists number_of
      (args\<lparr>arg_gcp_path := None\<rparr>) = ReturnsFalse ''ERROR: Configuration incomplete!''"
    by (rule rgb_ms_no_output_incomplete)
next
  assume a: "effective_dcim cfg args = Some dcim \<and> dcim \<noteq> [] \<and>
    effective_route_numbers cfg args \<noteq> [] \<and> scan dcim = Inr all_routes \<and>
    find_routes_by_numbers number_of (effective_route_numbers cfg args) all_routes = found \<and>
    found \<noteq> [] \<and> arg_output_path args = Some out \<and> out \<noteq> []"
  let ?args = "args\<lparr>arg_gcp_path := None\<rparr>"
  from a have h: "effective_dcim cfg ?args = Some dcim" "dcim \<noteq> []"
    "effective_route_numbers cfg ?args \<noteq> []" "scan dcim = Inr all_routes"
    "find_routes_by_numbers number_of (effective_route_numbers cfg ?args) all_routes = found"
    "found \<noteq> []" and o: "arg_output_path args = Some out" "out \<noteq> []"
    by (simp_all add: effective_ignores_gcp)
  have g: "arg_gcp_path (case RGB_MS of RGB_MS \<Rightarrow> apply_defaults_rgb_ms cfg ?args
                             | _ \<Rightarrow> apply_defaults cfg ?args) = Some out"
    using o by (simp add: apply_defaults_rgb_ms_def)
  have ou: "arg_output_path (case RGB_MS of RGB_MS \<Rightarrow> apply_defaults_rgb_ms cfg ?args
                             | _ \<Rightarrow> apply_defaults cfg ?args) = Some out"
    using o by (simp add: apply_defaults_rgb_ms_def)
  show "process_combined_routes RGB_MS cfg scan file_exists number_of ?args =
        (if filter (\<lambda>r. file_exists (get_gcp_file_path RGB_MS (number_of r) out)) found = []
         then ReturnsFalse ''route validation failed!''
         else StartsEngine
                (map (\<lambda>r. (r, get_gcp_file_path RGB_MS (number_of r) out))
                   (filter (\<lambda>r. file_exists (get_gcp_file_path RGB_MS (number_of r) out)) found))
                out)"
    by (rule process_after_discovery [where scan = scan, OF h g o(2) ou o(2)])
next
  assume a: "effective_dcim cfg args = Some dcim \<and> dcim \<noteq> [] \<and>
    effective_route_numbers cfg args \<noteq> [] \<and> scan dcim = Inr all_routes \<and>
    find_routes_by_numbers number_of (effective_route_numbers cfg args) all_routes = found \<and>
    found \<noteq> [] \<and> (v = RGB \<or> v = MS) \<and> gcp_base_path cfg = Some gcp_base \<and> gcp_base \<noteq> [] \<and>
    (case arg_output_path args of None \<Rightarrow> output_base_path cfg | Some p \<Rightarrow> Some p) = Some out \<and>
    out \<noteq> []"
  let ?args = "args\<lparr>arg_gcp_path := None\<rparr>"
  from a have h: "effective_dcim cfg ?args = Some dcim" "dcim \<noteq> []"
    "effective_route_numbers cfg ?args \<noteq> []" "scan dcim = Inr all_routes"
    "find_routes_by_numbers number_of (effective_route_numbers cfg ?args) all_routes = found"
    "found \<noteq> []"
    and v: "v = RGB \<or> v = MS" and b: "gcp_base_path cfg = Some gcp_base" "gcp_base \<noteq> []"
    and o: "(case arg_output_path args of None \<Rightarrow> output_base_path cfg | Some p \<Rightarrow> Some p) = Some out"
      "out \<noteq> []"
    by (simp_all add: effective_ignores_gcp)
  have g: "arg_gcp_path (case v of RGB_MS \<Rightarrow> apply_defaults_rgb_ms cfg ?args
                             | _ \<Rightarrow> apply_defaults cfg ?args) = Some gcp_base"
    using v b by (auto simp: apply_defaults_def)
  have ou: "arg_output_path (case v of RGB_MS \<Rightarrow> apply_defaults_rgb_ms cfg ?args
                             | _ \<Rightarrow> apply_defaults cfg ?args) = Some out"
    using v o by (auto simp: apply_defaults_def)
  show "process_combined_routes v cfg scan file_exists number_of ?args =
        (if filter (\<lambda>r. file_exists (get_gcp_file_path v (number_of r) gcp_base)) found = []
         then ReturnsFalse ''route validation failed!''
         else StartsEngine
                (map (\<lambda>r. (r, get_gcp_file_path v (number_of r) gcp_base))
                   (filter (\<lambda>r. file_exists (get_gcp_file_path v (number_of r) gcp_base)) found))
                out)"
    by (rule process_after_discovery [where scan = scan, OF h g b(2) ou o(2)])
qed

text \<open>
  A run with \<open>gcp_path\<close> omitted and the output path \<open>out\<close>: the GCP files of both routes
  are in the configured GCP folder \<open>g\<close>, and \<open>out\<close> holds one for route 002 only. The
  RGB+MS script goes on with route 002 and the file under \<open>out\<close>; the RGB script goes on
  with both routes and the files under \<open>g\<close>.
\<close>

theorem combined_gcp_path_default_witness:
  "process_combined_routes RGB_MS
      \<lparr>dcim_base_path = Some ''d'', gcp_base_path = Some ''g'', output_base_path = Some ''o'',
       routes_to_combine = [''001'', ''002'']\<rparr>
      (\<lambda>dcim. Inr [(''001'', ''DJI_202401010800_001_a''), (''002'', ''DJI_202401010800_002_b'')])
      (\<lambda>path. path \<in> set [''g/gcp_route_001.xml'', ''g/gcp_route_002.xml'',
                              ''out/gcp_route_002.xml''])
      fst
      (\<lparr>arg_route_numbers = None, arg_dcim_path = None, arg_gcp_path = Some ''ignored'',
        arg_output_path = Some ''out''\<rparr>\<lparr>arg_gcp_path := None\<rparr>) =
     StartsEngine [((''002'', ''DJI_202401010800_002_b''), ''out/gcp_route_002.xml'')] ''out'' \<and>
   process_combined_routes RGB
      \<lparr>dcim_base_path = Some ''d'', gcp_base_path = Some ''g'', output_base_path = Some ''o'',
       routes_to_combine = [''001'', ''002'']\<rparr>
      (\<lambda>dcim. Inr [(''001'', ''DJI_202401010800_001_a''), (''002'', ''DJI_202401010800_002_b'')])
      (\<lambda>path. path \<in> set [''g/gcp_route_001.xml'', ''g/gcp_route_002.xml'',
                              ''out/gcp_route_002.xml''])
      fst
      (\<lparr>arg_route_numbers = None, arg_dcim_path = None, arg_gcp_path = Some ''ignored'',
        arg_output_path = Some ''out''\<rparr>\<lparr>arg_gcp_path := None\<rparr>) =
     StartsEngine [((''001'', ''DJI_202401010800_001_a''), ''g/gcp_route_001.xml''),
                   ((''002'', ''DJI_202401010800_002_b''), ''g/gcp_route_002.xml'')] ''out'' \<and>
   process_combined_routes RGB_MS
      \<lparr>dcim_base_path = Some ''d'', gcp_base_path = Some ''g'', output_base_path = Some ''o'',
       routes_to_combine = [''001'', ''002'']\<rparr>
      (\<lambda>dcim. Inr [(''001'', ''DJI_202401010800_001_a''), (''002'', ''DJI_202401010800_002_b'')])
      (\<lambda>path. path \<in> set [''g/gcp_route_001.xml'', ''g/gcp_route_002.xml'',
                              ''out/gcp_route_002.xml''])
      fst no_args =
     ReturnsFalse ''ERROR: Configuration incomplete!''"
proof -
  let ?cfg = "\<lparr>dcim_base_path = Some ''d'', gcp_base_path = Some ''g'', output_base_path = Some ''o'',
       routes_to_combine = [''001'', ''002'']\<rparr>"
  let ?all = "[(''001'', ''DJI_202401010800_001_a''), (''002'', ''DJI_202401010800_002_b'')]"
  let ?scan = "\<lambda>dcim :: string. (Inr ?all :: py_error + (string \<times> string) list)"
  let ?ex = "\<lambda>path. path \<in> set [''g/gcp_route_001.xml'', ''g/gcp_route_002.xml'',
                              ''out/gcp_route_002.xml'']"
  let ?args = "\<lparr>arg_route_numbers = None, arg_dcim_path = None, arg_gcp_path = Some ''ignored'',
        arg_output_path = Some ''out''\<rparr>"
  note inst = combined_gcp_path_default
    [where cfg = ?cfg and args = ?args and dcim = "''d''" and scan = ?scan and number_of = fst
       and all_routes = ?all and found = ?all and out = "''out''" and file_exists = ?ex
       and v = RGB and gcp_base = "''g''"]
  have found: "find_routes_by_numbers fst [''001'', ''002''] ?all = ?all"
    by code_simp
  have eff: "effective_dcim ?cfg ?args = Some ''d''"
    "effective_route_numbers ?cfg ?args = [''001'', ''002'']"
    by (simp_all add: effective_dcim_def effective_route_numbers_def)
  have h1: "effective_dcim ?cfg ?args = Some ''d'' \<and> ''d'' \<noteq> [] \<and>
      effective_route_numbers ?cfg ?args \<noteq> [] \<and> ?scan ''d'' = Inr ?all \<and>
      find_routes_by_numbers fst (effective_route_numbers ?cfg ?args) ?all = ?all \<and>
      ?all \<noteq> [] \<and> arg_output_path ?args = Some ''out'' \<and> ''out'' \<noteq> []"
    unfolding eff found by simp
  have h2: "effective_dcim ?cfg ?args = Some ''d'' \<and> ''d'' \<noteq> [] \<and>
      effective_route_numbers ?cfg ?args \<noteq> [] \<and> ?scan ''d'' = Inr ?all \<and>
      find_routes_by_numbers fst (effective_route_numbers ?cfg ?args) ?all = ?all \<and>
      ?all \<noteq> [] \<and> (RGB = RGB \<or> RGB = MS) \<and> gcp_base_path ?cfg = Some ''g'' \<and> ''g'' \<noteq> [] \<and>
      (case arg_output_path ?args of None \<Rightarrow> output_base_path ?cfg | Some p \<Rightarrow> Some p) = Some ''out'' \<and>
      ''out'' \<noteq> []"
    unfolding eff found by simp
  have v1: "(if filter (\<lambda>r. ?ex (get_gcp_file_path RGB_MS (fst r) ''out'')) ?all = []
         then ReturnsFalse ''route validation failed!''
         else StartsEngine
                (map (\<lambda>r. (r, get_gcp_file_path RGB_MS (fst r) ''out''))
                   (filter (\<lambda>r. ?ex (get_gcp_file_path RGB_MS (fst r) ''out'')) ?all))
                ''out'') =
      StartsEngine [((''002'', ''DJI_202401010800_002_b''), ''out/gcp_route_002.xml'')] ''out''"
    by code_simp
  have v2: "(if filter (\<lambda>r. ?ex (get_gcp_file_path RGB (fst r) ''g'')) ?all = []
         then ReturnsFalse ''route validation failed!''
         else StartsEngine
                (map (\<lambda>r. (r, get_gcp_file_path RGB (fst r) ''g''))
                   (filter (\<lambda>r. ?ex (get_gcp_file_path RGB (fst r) ''g'')) ?all))
                ''out'') =
      StartsEngine [((''001'', ''DJI_202401010800_001_a''), ''g/gcp_route_001.xml''),
                   ((''002'', ''DJI_202401010800_002_b''), ''g/gcp_route_002.xml'')] ''out''"
    by code_simp
  have r1: "process_combined_routes RGB_MS ?cfg ?scan ?ex fst (?args\<lparr>arg_gcp_path := None\<rparr>) =
      StartsEngine [((''002'', ''DJI_202401010800_002_b''), ''out/gcp_route_002.xml'')] ''out''"
    using inst [THEN conjunct2, THEN conjunct2, THEN conjunct1, THEN mp, OF h1]
    unfolding v1 .
  have r2: "process_combined_routes RGB ?cfg ?scan ?ex fst (?args\<lparr>arg_gcp_path := None\<rparr>) =
      StartsEngine [((''001'', ''DJI_202401010800_001_a''), ''g/gcp_route_001.xml''),
                   ((''002'', ''DJI_202401010800_002_b''), ''g/gcp_route_002.xml'')] ''out''"
    using inst [THEN conjunct2, THEN conjunct2, THEN conjunct2, THEN conjunct1, THEN mp, OF h2]
    unfolding v2 .
  have r3: "process_combined_routes RGB_MS ?cfg ?scan ?ex fst no_args =
     ReturnsFalse ''ERROR: Configuration incomplete!''"
    by (rule inst [THEN conjunct2, THEN conjunct2, THEN conjunct2, THEN conjunct2, THEN conjunct2])
  from r1 r2 r3 show ?thesis
    by (intro conjI)
qed

end
